theory Spec2Isabelle
  imports Main "HOL-Library.Word"
begin

unbundle bit_operations_syntax

section \<open>Codes and symbols\<close>

text \<open>
  Go's \<open>byte\<close> and \<open>uint32\<close> are words of 8 and 32 bits; arithmetic on them wraps.
  \<open>Symbol\<close> is an \<open>int32\<close>: a 32-bit word read in two's complement (\<open>sint\<close>) where
  the source compares symbols as signed numbers, and as it stands where the source converts
  them with \<open>uint32(...)\<close>.
\<close>

type_synonym byte = "8 word"
type_synonym uint32 = "32 word"
type_synonym Symbol = "32 word"

definition InvalidSymbol :: Symbol where
  "InvalidSymbol = - 1"

definition MaxSymbol :: int where
  "MaxSymbol = 2147483647"

definition MinInt32 :: Symbol where
  "MinInt32 = 2147483648"

text \<open>
  Modelled from the spec: the constant \<open>maxBitsPerCode\<close>, whose declaration is not among
  the source files; the specification fixes its value at 15.
\<close>

definition maxBitsPerCode :: nat where
  "maxBitsPerCode = 15"

record Code =
  Size :: byte
  Bits :: uint32

definition MakeCode :: "byte \<Rightarrow> uint32 \<Rightarrow> Code" where
  "MakeCode sz bits = \<lparr>Size = sz, Bits = bits\<rparr>"

text \<open>
  \<open>reverseBits\<close> is \<open>mathbits.Reverse32(bits) >> (32 - size)\<close>. The shift count is a
  \<open>byte\<close>, so \<open>32 - size\<close> wraps for \<open>size > 32\<close>; a Go shift by 32 or more gives 0,
  as \<open>drop_bit\<close> does on a 32-bit word.
\<close>

definition reverseBits :: "byte \<Rightarrow> uint32 \<Rightarrow> uint32" where
  "reverseBits sz bits = drop_bit (unat (32 - sz)) (word_reverse bits)"

definition MakeReversedCode :: "byte \<Rightarrow> uint32 \<Rightarrow> Code" where
  "MakeReversedCode sz bits = MakeCode sz (reverseBits sz bits)"

definition Reversed :: "Code \<Rightarrow> Code" where
  "Reversed hc = MakeReversedCode (Size hc) (Bits hc)"

section \<open>Errors and panics\<close>

text \<open>
  The three \<open>fmt.Errorf\<close> messages of the package are the first three constructors, each
  with the numbers the message prints. The others are the panics: an index out of range, a
  \<open>make\<close> with a negative length, a failed \<open>assert.Assertf\<close>, and the \<open>panic(err)\<close> of the
  convenience constructors.
\<close>

datatype error =
    InvalidLength byte
  | DegenerateTree int uint32
  | TooManySymbols byte
  | IndexOutOfRange
  | MakeSliceLen
  | AssertFailed
  | PanicErr error

fun isPanic :: "error \<Rightarrow> bool" where
  "isPanic (InvalidLength _) = False"
| "isPanic (DegenerateTree _ _) = False"
| "isPanic (TooManySymbols _) = False"
| "isPanic _ = True"

text \<open>
  \<open>Symbol(len(xs))\<close>: the length of a slice converted to \<open>int32\<close>. It is the length itself
  below \<open>2^31\<close> and wraps above.
\<close>

definition SymbolLen :: "'a list \<Rightarrow> int" where
  "SymbolLen xs = sint (word_of_nat (length xs) :: 32 word)"

section \<open>Decoder\<close>

record decoderData =
  dd_symbol :: Symbol
  dd_minSize :: byte
  dd_maxSize :: byte

type_synonym table = "Code \<Rightarrow> decoderData option"

record Decoder =
  d_table :: table
  d_sizes :: "byte list"
  d_minSize :: byte
  d_maxSize :: byte

text \<open>The zero value \<open>Decoder{}\<close>: a nil map, a nil slice, zero sizes.\<close>

definition emptyDecoder :: Decoder where
  "emptyDecoder = \<lparr>d_table = Map.empty, d_sizes = [], d_minSize = 0, d_maxSize = 0\<rparr>"

text \<open>
  The loop of \<open>fillTable\<close>. One round flips the last bit of \<open>hc\<close> to find the sibling,
  merges the sibling's range into the new parent entry, drops the last bit, and stops when
  the parent already holds that entry.
\<close>

definition mergeSibling :: "decoderData \<Rightarrow> decoderData option \<Rightarrow> decoderData" where
  "mergeSibling dd sib =
     (let ddNew = \<lparr>dd_symbol = InvalidSymbol, dd_minSize = dd_minSize dd, dd_maxSize = dd_maxSize dd\<rparr>
      in case sib of
           None \<Rightarrow> ddNew
         | Some ddSibling \<Rightarrow>
             (let ddNew1 = (if dd_minSize ddNew > dd_minSize ddSibling
                            then ddNew\<lparr>dd_minSize := dd_minSize ddSibling\<rparr> else ddNew)
              in if dd_maxSize ddNew1 < dd_maxSize ddSibling
                 then ddNew1\<lparr>dd_maxSize := dd_maxSize ddSibling\<rparr> else ddNew1))"

function fillLoop :: "table \<Rightarrow> Code \<Rightarrow> decoderData \<Rightarrow> table" where
  "fillLoop tbl hc dd =
     (if Size hc = 0 then tbl
      else
        let bit = push_bit (unat (Size hc - 1)) (1 :: uint32);
            hcSibling = hc\<lparr>Bits := Bits hc XOR bit\<rparr>;
            ddNew = mergeSibling dd (tbl hcSibling);
            hcParent = \<lparr>Size = Size hc - 1, Bits = Bits hcSibling AND NOT bit\<rparr>
        in if tbl hcParent = Some ddNew then tbl
           else fillLoop (tbl(hcParent \<mapsto> ddNew)) hcParent ddNew)"
  by pat_completeness auto
termination
  by (relation "measure (\<lambda>(tbl, hc, dd). unat (Size hc))")
     (auto simp: unat_minus_one unat_gt_0)

declare fillLoop.simps [simp del]

definition fillTable :: "table \<Rightarrow> Symbol \<Rightarrow> Code \<Rightarrow> table" where
  "fillTable tbl symbol hc =
     (let dd = \<lparr>dd_symbol = symbol, dd_minSize = Size hc, dd_maxSize = Size hc\<rparr>
      in fillLoop (tbl(hc \<mapsto> dd)) hc dd)"

text \<open>
  The first loop of \<open>Decoder.Init\<close>: the histogram \<open>countArray\<close> (an array of
  \<open>maxBitsPerCode\<close> entries), the number of non-zero sizes, and the least and greatest
  size. Every index into the fixed-size arrays is checked against their length, as Go does.
\<close>

type_synonym scan = "uint32 list \<times> uint32 \<times> byte \<times> byte"

fun countSizes :: "byte list \<Rightarrow> scan \<Rightarrow> error + scan" where
  "countSizes [] st = Inr st"
| "countSizes (sz # rest) (countArray, n, minSize, maxSize) =
     (if sz = 0 then countSizes rest (countArray, n, minSize, maxSize)
      else if unat sz > maxBitsPerCode then Inl (InvalidLength sz)
      else
        let (minSize', maxSize') =
              (if n = 0 then (sz, sz)
               else if minSize > sz then (sz, maxSize)
               else if maxSize < sz then (minSize, sz)
               else (minSize, maxSize))
        in if unat sz < maxBitsPerCode
           then countSizes rest
                  (countArray[unat sz := countArray ! unat sz + 1], n + 1, minSize', maxSize')
           else Inl IndexOutOfRange)"

text \<open>
  The second loop: \<open>for bits := minSize; bits <= maxSize; bits++\<close>, computing the first
  code of every length. It returns the running \<open>code\<close> and \<open>nextCodeArray\<close>.
\<close>

function nextCodes :: "uint32 list \<Rightarrow> byte \<Rightarrow> byte \<Rightarrow> uint32 \<Rightarrow> uint32 list
    \<Rightarrow> error + (uint32 \<times> uint32 list)" where
  "nextCodes countArray bits maxSize code nextCodeArray =
     (if bits \<le> maxSize then
        (if unat (bits - 1) < maxBitsPerCode \<and> unat bits < maxBitsPerCode
         then let code' = push_bit 1 (code + countArray ! unat (bits - 1))
              in nextCodes countArray (bits + 1) maxSize code' (nextCodeArray[unat bits := code'])
         else Inl IndexOutOfRange)
      else Inr (code, nextCodeArray))"
  by pat_completeness auto
termination
  by (relation "measure (\<lambda>(countArray, bits, maxSize, code, nextCodeArray). 255 - unat bits)")
     (auto simp: maxBitsPerCode_def unat_word_ariths)

declare nextCodes.simps [simp del]

text \<open>
  The third loop: every symbol with a non-zero size takes the next code of its size,
  reversed into transmission order, and enters the table.
\<close>

fun insertCodes :: "nat \<Rightarrow> byte list \<Rightarrow> uint32 list \<Rightarrow> table \<Rightarrow> error + table" where
  "insertCodes symbol [] nextCodeArray tbl = Inr tbl"
| "insertCodes symbol (sz # rest) nextCodeArray tbl =
     (if sz = 0 then insertCodes (Suc symbol) rest nextCodeArray tbl
      else if unat sz < maxBitsPerCode
      then let code = nextCodeArray ! unat sz;
               hc = MakeReversedCode sz code
           in insertCodes (Suc symbol) rest (nextCodeArray[unat sz := code + 1])
                (fillTable tbl (word_of_nat symbol) hc)
      else Inl IndexOutOfRange)"

definition Decoder_Init :: "byte list \<Rightarrow> error + Decoder" where
  "Decoder_Init sizes =
     (let numSymbols = nat (SymbolLen sizes)
      in case countSizes (take numSymbols sizes) (replicate maxBitsPerCode 0, 0, 0, 0) of
           Inl e \<Rightarrow> Inl e
         | Inr (countArray, n, minSize, maxSize) \<Rightarrow>
             if n = 0 then Inr emptyDecoder
             else
               (case nextCodes countArray minSize maxSize 0 (replicate maxBitsPerCode 0) of
                  Inl e \<Rightarrow> Inl e
                | Inr (code0, nextCodeArray) \<Rightarrow>
                    if unat maxSize < maxBitsPerCode
                    then
                      let code = code0 + countArray ! unat maxSize
                      in if code = 1 \<and> maxSize = 1 \<or> code = push_bit (unat maxSize) 1
                         then
                           (case insertCodes 0 (take numSymbols sizes) nextCodeArray Map.empty of
                              Inl e \<Rightarrow> Inl e
                            | Inr tbl \<Rightarrow>
                                Inr \<lparr>d_table = tbl, d_sizes = take numSymbols sizes,
                                     d_minSize = minSize, d_maxSize = maxSize\<rparr>)
                         else Inl (DegenerateTree (2 ^ unat maxSize) code)
                    else Inl IndexOutOfRange))"

definition Decode :: "Decoder \<Rightarrow> Code \<Rightarrow> Symbol \<times> byte \<times> byte" where
  "Decode d hc =
     (case d_table d hc of
        None \<Rightarrow> (InvalidSymbol, 0, 0)
      | Some dd \<Rightarrow> (dd_symbol dd, dd_minSize dd, dd_maxSize dd))"

definition Decoder_SizeBySymbol :: "Decoder \<Rightarrow> byte list" where
  "Decoder_SizeBySymbol d = d_sizes d"

definition Decoder_MinSize :: "Decoder \<Rightarrow> byte" where
  "Decoder_MinSize d = d_minSize d"

definition Decoder_MaxSize :: "Decoder \<Rightarrow> byte" where
  "Decoder_MaxSize d = d_maxSize d"

section \<open>Encoder\<close>

record Encoder =
  e_codes :: "Code list"
  e_minSize :: byte
  e_maxSize :: byte

definition zeroCode :: Code where
  "zeroCode = \<lparr>Size = 0, Bits = 0\<rparr>"

subsection \<open>secondPass: canonical assignment\<close>

text \<open>
  A \<open>symbolAndSize\<close> is a pair (symbol, size). \<open>bySize.Less\<close> orders by size and then by
  symbol, compared as signed numbers.
\<close>

type_synonym symbolAndSize = "Symbol \<times> byte"

definition bySize_Less :: "symbolAndSize \<Rightarrow> symbolAndSize \<Rightarrow> bool" where
  "bySize_Less a b = (if snd a \<noteq> snd b then snd a < snd b else sint (fst a) < sint (fst b))"

text \<open>
  \<open>sort.Sort\<close> is the standard library's; the symbols of the list are distinct, so
  \<open>bySize.Less\<close> is a strict total order on it and every correct sort returns the same list.
  Here it is an insertion sort.
\<close>

fun bySize_insert :: "symbolAndSize \<Rightarrow> symbolAndSize list \<Rightarrow> symbolAndSize list" where
  "bySize_insert x [] = [x]"
| "bySize_insert x (y # ys) = (if bySize_Less x y then x # y # ys else y # bySize_insert x ys)"

definition bySize_Sort :: "symbolAndSize list \<Rightarrow> symbolAndSize list" where
  "bySize_Sort xs = foldr bySize_insert xs []"

text \<open>Step 1 of \<open>secondPass\<close>: the symbols with a non-zero size, in symbol order.\<close>

fun collectSizes :: "nat \<Rightarrow> Code list \<Rightarrow> symbolAndSize list \<Rightarrow> error + symbolAndSize list" where
  "collectSizes symbol [] acc = Inr acc"
| "collectSizes symbol (hc # rest) acc =
     (if Size hc = 0 then collectSizes (Suc symbol) rest acc
      else if unat (Size hc) > maxBitsPerCode then Inl (InvalidLength (Size hc))
      else collectSizes (Suc symbol) rest (acc @ [(word_of_nat symbol, Size hc)]))"

text \<open>
  Step 2: the loop over the sorted list. \<open>codes\<close> is written in place, so the function
  returns the array as it stands together with the error, if any.
\<close>

fun assignCodes :: "symbolAndSize list \<Rightarrow> byte \<Rightarrow> uint32 \<Rightarrow> Code list
    \<Rightarrow> Code list \<times> error option" where
  "assignCodes [] lastSize nextCode codes = (codes, None)"
| "assignCodes ((symbol, sz) # rest) lastSize nextCode codes =
     (let (nextCode', lastSize') =
            (if sz > lastSize then (push_bit (unat (sz - lastSize)) nextCode, sz)
             else (nextCode, lastSize));
          mask = push_bit (unat sz) (1 :: uint32) - 1
      in if nextCode' AND NOT mask \<noteq> 0 then (codes, Some (TooManySymbols sz))
         else if 0 \<le> sint symbol \<and> nat (sint symbol) < length codes
         then assignCodes rest lastSize' (nextCode' + 1)
                (codes[nat (sint symbol) :=
                   (codes ! nat (sint symbol))\<lparr>Bits := reverseBits sz nextCode'\<rparr>])
         else (codes, Some IndexOutOfRange))"

definition secondPass :: "Code list \<Rightarrow> Code list \<times> error option" where
  "secondPass codes =
     (if SymbolLen codes < 0 then (codes, Some MakeSliceLen)
      else
        case collectSizes 0 (take (nat (SymbolLen codes)) codes) [] of
          Inl e \<Rightarrow> (codes, Some e)
        | Inr unsorted \<Rightarrow>
            (case bySize_Sort unsorted of
               [] \<Rightarrow> (codes, Some IndexOutOfRange)
             | first # others \<Rightarrow> assignCodes (first # others) (snd first) 0 codes))"

subsection \<open>InitFromSizes\<close>

type_synonym sizeScan = "Code list \<times> bool \<times> byte \<times> byte"

fun setSizes :: "nat \<Rightarrow> byte list \<Rightarrow> sizeScan \<Rightarrow> error + sizeScan" where
  "setSizes symbol [] st = Inr st"
| "setSizes symbol (sz # rest) (codes, hasMinMax, minSize, maxSize) =
     (if sz = 0 then setSizes (Suc symbol) rest (codes, hasMinMax, minSize, maxSize)
      else
        let (minSize', maxSize') =
              (if \<not> hasMinMax then (sz, sz)
               else if minSize > sz then (sz, maxSize)
               else if maxSize < sz then (minSize, sz)
               else (minSize, maxSize))
        in if symbol < length codes
           then setSizes (Suc symbol) rest
                  (codes[symbol := (codes ! symbol)\<lparr>Size := sz\<rparr>], True, minSize', maxSize')
           else Inl IndexOutOfRange)"

definition InitFromSizes :: "byte list \<Rightarrow> error + Encoder" where
  "InitFromSizes sizes =
     (if SymbolLen sizes < 0 then Inl MakeSliceLen
      else
        let numSymbols = nat (SymbolLen sizes)
        in case setSizes 0 (take numSymbols sizes) (replicate numSymbols zeroCode, False, 0, 0) of
             Inl e \<Rightarrow> Inl e
           | Inr (codes, hasMinMax, minSize, maxSize) \<Rightarrow>
               (case secondPass codes of
                  (codes', Some e) \<Rightarrow> Inl e
                | (codes', None) \<Rightarrow>
                    Inr \<lparr>e_codes = codes', e_minSize = minSize, e_maxSize = maxSize\<rparr>))"

definition InitFromDecoder :: "Decoder \<Rightarrow> error + Encoder" where
  "InitFromDecoder d = InitFromSizes (Decoder_SizeBySymbol d)"

text \<open>\<open>Decoder.Encoder\<close> panics with the error of \<open>InitFromDecoder\<close>.\<close>

definition panicOnError :: "error + 'a \<Rightarrow> error + 'a" where
  "panicOnError r = (case r of Inl e \<Rightarrow> Inl (if isPanic e then e else PanicErr e) | Inr x \<Rightarrow> Inr x)"

definition Decoder_Encoder :: "Decoder \<Rightarrow> error + Encoder" where
  "Decoder_Encoder d = panicOnError (InitFromDecoder d)"

definition Encoder_SizeBySymbol :: "Encoder \<Rightarrow> error + byte list" where
  "Encoder_SizeBySymbol e =
     (if SymbolLen (e_codes e) < 0 then Inl MakeSliceLen
      else Inr (map Size (take (nat (SymbolLen (e_codes e))) (e_codes e))))"

definition InitFromEncoder :: "Encoder \<Rightarrow> error + Decoder" where
  "InitFromEncoder e =
     (case Encoder_SizeBySymbol e of Inl err \<Rightarrow> Inl err | Inr sizes \<Rightarrow> Decoder_Init sizes)"

definition Encoder_Decoder :: "Encoder \<Rightarrow> error + Decoder" where
  "Encoder_Decoder e = panicOnError (InitFromEncoder e)"

definition Encode :: "Encoder \<Rightarrow> Symbol \<Rightarrow> error + Code" where
  "Encode e symbol =
     (if 0 \<le> sint symbol \<and> nat (sint symbol) < length (e_codes e)
      then Inr (e_codes e ! nat (sint symbol)) else Inl IndexOutOfRange)"

definition Encoder_MinSize :: "Encoder \<Rightarrow> byte" where
  "Encoder_MinSize e = e_minSize e"

definition Encoder_MaxSize :: "Encoder \<Rightarrow> byte" where
  "Encoder_MaxSize e = e_maxSize e"

subsection \<open>firstPass: the min-heap and the tree walk\<close>

text \<open>
  A \<open>symbolAndFreq\<close> is a pair (symbol, freq). \<open>freqHeap.Less\<close> orders by frequency and
  then by \<open>uint32(symbol)\<close>, so the synthetic (negative) symbols come after the natural ones.
\<close>

type_synonym symbolAndFreq = "Symbol \<times> uint32"

definition freqHeap_Less :: "symbolAndFreq list \<Rightarrow> nat \<Rightarrow> nat \<Rightarrow> bool" where
  "freqHeap_Less h i j =
     (let a = h ! i; b = h ! j
      in if snd a \<noteq> snd b then snd a < snd b else fst a < fst b)"

definition freqHeap_Swap :: "symbolAndFreq list \<Rightarrow> nat \<Rightarrow> nat \<Rightarrow> symbolAndFreq list" where
  "freqHeap_Swap h i j = h[i := h ! j, j := h ! i]"

text \<open>
  \<open>container/heap\<close> of the standard library, on the slice of the \<open>freqHeap\<close>: \<open>down\<close>,
  \<open>up\<close>, \<open>Init\<close>, \<open>Push\<close> and \<open>Pop\<close>. They are called with \<open>n\<close> at most the length of the
  slice, so their indices are in range.
\<close>

function heap_down :: "symbolAndFreq list \<Rightarrow> nat \<Rightarrow> nat \<Rightarrow> symbolAndFreq list" where
  "heap_down h i n =
     (let j1 = 2 * i + 1
      in if j1 \<ge> n then h
         else
           let j = (if j1 + 1 < n \<and> freqHeap_Less h (j1 + 1) j1 then j1 + 1 else j1)
           in if \<not> freqHeap_Less h j i then h
              else heap_down (freqHeap_Swap h i j) j n)"
  by pat_completeness auto
termination
  by (relation "measure (\<lambda>(h, i, n). n - i)") (auto simp: Let_def)

declare heap_down.simps [simp del]

function heap_up :: "symbolAndFreq list \<Rightarrow> nat \<Rightarrow> symbolAndFreq list" where
  "heap_up h j =
     (let i = (j - 1) div 2
      in if i = j \<or> \<not> freqHeap_Less h j i then h
         else heap_up (freqHeap_Swap h i j) i)"
  by pat_completeness auto
termination
  by (relation "measure (\<lambda>(h, j). j)") (auto simp: Let_def)

declare heap_up.simps [simp del]

definition heap_Init :: "symbolAndFreq list \<Rightarrow> symbolAndFreq list" where
  "heap_Init h = foldl (\<lambda>h' i. heap_down h' i (length h)) h (rev [0..<length h div 2])"

definition heap_Push :: "symbolAndFreq list \<Rightarrow> symbolAndFreq \<Rightarrow> symbolAndFreq list" where
  "heap_Push h x = heap_up (h @ [x]) (length h)"

definition heap_Pop :: "symbolAndFreq list \<Rightarrow> symbolAndFreq \<times> symbolAndFreq list" where
  "heap_Pop h =
     (let n = length h - 1;
          h' = heap_down (freqHeap_Swap h 0 n) 0 n
      in (h' ! n, take n h'))"

lemma length_freqHeap_Swap [simp]: "length (freqHeap_Swap h i j) = length h"
  by (simp add: freqHeap_Swap_def)

lemma length_heap_down [simp]: "length (heap_down h i n) = length h"
proof (induction h i n rule: heap_down.induct)
  case (1 h i n)
  show ?case
    by (subst heap_down.simps) (simp add: Let_def 1)
qed

lemma length_heap_up [simp]: "length (heap_up h j) = length h"
proof (induction h j rule: heap_up.induct)
  case (1 h j)
  show ?case
    by (subst heap_up.simps) (simp add: Let_def 1)
qed

lemma length_heap_Push [simp]: "length (heap_Push h x) = Suc (length h)"
  by (simp add: heap_Push_def)

lemma length_heap_Pop [simp]: "length (snd (heap_Pop h)) = length h - 1"
  by (simp add: heap_Pop_def Let_def)

text \<open>The frequency of a synthetic node: addition that saturates at \<open>math.MaxUint32\<close>.\<close>

definition freqSum :: "uint32 \<Rightarrow> uint32 \<Rightarrow> uint32" where
  "freqSum a b = (let s = a + b in if s < a then 4294967295 else s)"

text \<open>
  Step 2 of \<open>firstPass\<close>: while the heap has more than one node, pop two, record them as
  the children of the next synthetic symbol, and push that symbol with their summed frequency.
\<close>

type_synonym syntheticSymbol = "Symbol \<times> Symbol"

function combineNodes :: "symbolAndFreq list \<Rightarrow> syntheticSymbol list \<Rightarrow> Symbol
    \<Rightarrow> symbolAndFreq list \<times> syntheticSymbol list" where
  "combineNodes h syntheticSymbols nextSyntheticSymbol =
     (if length h > 1 then
        let (a, h1) = heap_Pop h;
            (b, h2) = heap_Pop h1
        in combineNodes (heap_Push h2 (nextSyntheticSymbol, freqSum (snd a) (snd b)))
             (syntheticSymbols @ [(fst a, fst b)]) (nextSyntheticSymbol + 1)
      else (h, syntheticSymbols))"
  by pat_completeness auto
termination
proof (relation "measure (\<lambda>(h, syntheticSymbols, nextSyntheticSymbol). length h)")
  show "wf (measure (\<lambda>(h, syntheticSymbols, nextSyntheticSymbol). length h))"
    by simp
next
  fix h :: "symbolAndFreq list" and syntheticSymbols :: "syntheticSymbol list"
    and nextSyntheticSymbol :: Symbol and x a h1 y b h2
  assume len: "1 < length h" and x: "x = heap_Pop h" and ah1: "(a, h1) = x"
    and y: "y = heap_Pop h1" and bh2: "(b, h2) = y"
  have "h1 = snd (heap_Pop h)" using x ah1 by (metis snd_conv)
  moreover have "h2 = snd (heap_Pop h1)" using y bh2 by (metis snd_conv)
  ultimately have "length h2 = length h - 2" by simp
  then show "((heap_Push h2 (nextSyntheticSymbol, freqSum (snd a) (snd b)),
                syntheticSymbols @ [(fst a, fst b)], nextSyntheticSymbol + 1),
               h, syntheticSymbols, nextSyntheticSymbol)
             \<in> measure (\<lambda>(h, syntheticSymbols, nextSyntheticSymbol). length h)"
    using len by simp
qed

declare combineNodes.simps [simp del]

text \<open>
  Step 3: the walk with an explicit stack. The top of the stack is the head of the list, and
  \<open>stackLen\<close> is its length. The walk follows the child indices it is given, so it is a
  partial function: \<open>None\<close> stands for a walk that does not return.
\<close>

type_synonym stackItem = "Symbol \<times> byte"
type_synonym walkState = "stackItem list \<times> Code list \<times> bool \<times> byte \<times> byte"

definition childOf :: "syntheticSymbol list \<Rightarrow> Symbol \<Rightarrow> bool \<Rightarrow> error + Symbol" where
  "childOf syntheticSymbols s right =
     (let index = sint (s - MinInt32)
      in if 0 \<le> index \<and> nat index < length syntheticSymbols
         then Inr ((if right then snd else fst) (syntheticSymbols ! nat index))
         else Inl IndexOutOfRange)"

definition processChild :: "Symbol \<Rightarrow> walkState \<Rightarrow> error + walkState" where
  "processChild child st =
     (case st of (stack, codes, hasMinMax, minSize, maxSize) \<Rightarrow>
        if sint child < 0 then Inr ((child, 0) # stack, codes, hasMinMax, minSize, maxSize)
        else
          let sz = (word_of_nat (length stack) :: byte)
          in if nat (sint child) < length codes
             then
               let codes' = codes[nat (sint child) := (codes ! nat (sint child))\<lparr>Size := sz\<rparr>]
               in if \<not> hasMinMax then Inr (stack, codes', True, sz, sz)
                  else if minSize > sz then Inr (stack, codes', True, sz, maxSize)
                  else if maxSize < sz then Inr (stack, codes', True, minSize, sz)
                  else Inr (stack, codes', True, minSize, maxSize)
             else Inl IndexOutOfRange)"

partial_function (option) walkTree :: "syntheticSymbol list \<Rightarrow> walkState
    \<Rightarrow> (error + walkState) option" where
  "walkTree syntheticSymbols st =
     (case st of (stack, codes, hasMinMax, minSize, maxSize) \<Rightarrow>
        (case stack of
           [] \<Rightarrow> Some (Inr st)
         | (s, x) # below \<Rightarrow>
             if x = 0 \<or> x = 1 then
               (case childOf syntheticSymbols s (x = 1) of
                  Inl e \<Rightarrow> Some (Inl e)
                | Inr child \<Rightarrow>
                    (case processChild child ((s, x + 1) # below, codes, hasMinMax, minSize, maxSize) of
                       Inl e \<Rightarrow> Some (Inl e)
                     | Inr st' \<Rightarrow> walkTree syntheticSymbols st'))
             else if x = 2 then walkTree syntheticSymbols (below, codes, hasMinMax, minSize, maxSize)
             else walkTree syntheticSymbols ((s, x + 1) # below, codes, hasMinMax, minSize, maxSize)))"

declare walkTree.simps [code]

text \<open>
  \<open>firstPass\<close> returns the codes with their sizes set, \<open>minSize\<close> and \<open>maxSize\<close>. The last
  \<open>heap.Pop\<close> reads the root; on an empty heap it would index out of range.
\<close>

definition firstPass :: "Code list \<Rightarrow> symbolAndFreq list \<Rightarrow> byte \<Rightarrow> byte
    \<Rightarrow> (error + Code list \<times> byte \<times> byte) option" where
  "firstPass codes nodes minSize maxSize =
     (case combineNodes (heap_Init nodes) [] MinInt32 of
        (h, syntheticSymbols) \<Rightarrow>
          if h = [] then Some (Inl IndexOutOfRange)
          else
            (let root = fst (heap_Pop h)
             in (case walkTree syntheticSymbols ([(fst root, 0)], codes, False, minSize, maxSize) of
                   None \<Rightarrow> None
                 | Some (Inl e) \<Rightarrow> Some (Inl e)
                 | Some (Inr (stack, codes', hasMinMax, minSize', maxSize')) \<Rightarrow>
                     Some (Inr (codes', minSize', maxSize')))))"

subsection \<open>Init from frequencies\<close>

fun collectNodes :: "nat \<Rightarrow> uint32 list \<Rightarrow> symbolAndFreq list" where
  "collectNodes symbol [] = []"
| "collectNodes symbol (freq # rest) =
     (if freq \<noteq> 0 then (word_of_nat symbol, freq) # collectNodes (Suc symbol) rest
      else collectNodes (Suc symbol) rest)"

text \<open>The short path for at most two nodes: node number \<open>index\<close> gets the code \<open>MakeCode(1, index)\<close>.\<close>

fun shortCodes :: "nat \<Rightarrow> symbolAndFreq list \<Rightarrow> Code list \<Rightarrow> error + Code list" where
  "shortCodes index [] codes = Inr codes"
| "shortCodes index ((symbol, freq) # rest) codes =
     (if 0 \<le> sint symbol \<and> nat (sint symbol) < length codes
      then shortCodes (Suc index) rest (codes[nat (sint symbol) := MakeCode 1 (word_of_nat index)])
      else Inl IndexOutOfRange)"

text \<open>
  \<open>Encoder.Init\<close> has no error result. The model returns \<open>Inl\<close> for a panic only, and \<open>None\<close>
  if the tree walk does not return. The error of \<open>secondPass\<close> is dropped
  (\<open>_ = secondPass(codes)\<close>), and the codes stay as \<open>secondPass\<close> left them.
\<close>

definition Encoder_Init :: "int \<Rightarrow> uint32 list \<Rightarrow> (error + Encoder) option" where
  "Encoder_Init numSymbols frequencies =
     (if numSymbols \<ge> 1 \<and> numSymbols \<le> MaxSymbol \<and> numSymbols \<ge> int (length frequencies)
      then
        let codes = replicate (nat numSymbols) zeroCode;
            nodes = collectNodes 0 frequencies
        in if length nodes \<le> 2 then
             (case shortCodes 0 nodes codes of
                Inl e \<Rightarrow> Some (Inl e)
              | Inr codes' \<Rightarrow> Some (Inr \<lparr>e_codes = codes', e_minSize = 1, e_maxSize = 1\<rparr>))
           else
             (case firstPass codes nodes 0 0 of
                None \<Rightarrow> None
              | Some (Inl e) \<Rightarrow> Some (Inl e)
              | Some (Inr (codes1, minSize, maxSize)) \<Rightarrow>
                  (case secondPass codes1 of
                     (codes2, err) \<Rightarrow>
                       if (case err of None \<Rightarrow> False | Some e \<Rightarrow> isPanic e)
                       then Some (Inl (the err))
                       else Some (Inr \<lparr>e_codes = codes2, e_minSize = minSize, e_maxSize = maxSize\<rparr>)))
      else Some (Inl AssertFailed))"

lemma SymbolLen_small: "length xs < 2 ^ 31 \<Longrightarrow> SymbolLen xs = int (length xs)"
  unfolding SymbolLen_def
  by (simp add: signed_of_nat signed_take_bit_int_eq_self)

section \<open>Evaluating the decoder's table\<close>

text \<open>
  The table of the model is a map. To evaluate it on a concrete input, the same loops are run
  on an association list, where a new entry is put in front and hides an older one with the
  same key; \<open>map_of\<close> reads the list as the map.
\<close>

type_synonym tableList = "(Code \<times> decoderData) list"

function fillLoopA :: "tableList \<Rightarrow> Code \<Rightarrow> decoderData \<Rightarrow> tableList" where
  "fillLoopA ps hc dd =
     (if Size hc = 0 then ps
      else
        let bit = push_bit (unat (Size hc - 1)) (1 :: uint32);
            hcSibling = hc\<lparr>Bits := Bits hc XOR bit\<rparr>;
            ddNew = mergeSibling dd (map_of ps hcSibling);
            hcParent = \<lparr>Size = Size hc - 1, Bits = Bits hcSibling AND NOT bit\<rparr>
        in if map_of ps hcParent = Some ddNew then ps
           else fillLoopA ((hcParent, ddNew) # ps) hcParent ddNew)"
  by pat_completeness auto
termination
  by (relation "measure (\<lambda>(ps, hc, dd). unat (Size hc))")
     (auto simp: unat_minus_one unat_gt_0)

declare fillLoopA.simps [simp del]

definition fillTableA :: "tableList \<Rightarrow> Symbol \<Rightarrow> Code \<Rightarrow> tableList" where
  "fillTableA ps symbol hc =
     (let dd = \<lparr>dd_symbol = symbol, dd_minSize = Size hc, dd_maxSize = Size hc\<rparr>
      in fillLoopA ((hc, dd) # ps) hc dd)"

fun insertCodesA :: "nat \<Rightarrow> byte list \<Rightarrow> uint32 list \<Rightarrow> tableList \<Rightarrow> error + tableList" where
  "insertCodesA symbol [] nextCodeArray ps = Inr ps"
| "insertCodesA symbol (sz # rest) nextCodeArray ps =
     (if sz = 0 then insertCodesA (Suc symbol) rest nextCodeArray ps
      else if unat sz < maxBitsPerCode
      then let code = nextCodeArray ! unat sz;
               hc = MakeReversedCode sz code
           in insertCodesA (Suc symbol) rest (nextCodeArray[unat sz := code + 1])
                (fillTableA ps (word_of_nat symbol) hc)
      else Inl IndexOutOfRange)"

lemma fillLoop_map_of: "fillLoop (map_of ps) hc dd = map_of (fillLoopA ps hc dd)"
proof (induction ps hc dd rule: fillLoopA.induct)
  case (1 ps hc dd)
  show ?case
  proof (cases "Size hc = 0")
    case True
    then show ?thesis
      by (subst fillLoop.simps, subst fillLoopA.simps) simp
  next
    case False
    define bit where "bit = push_bit (unat (Size hc - 1)) (1 :: uint32)"
    define hcSibling where "hcSibling = hc\<lparr>Bits := Bits hc XOR bit\<rparr>"
    define ddNew where "ddNew = mergeSibling dd (map_of ps hcSibling)"
    define hcParent where "hcParent = \<lparr>Size = Size hc - 1, Bits = Bits hcSibling AND NOT bit\<rparr>"
    have L: "fillLoop (map_of ps) hc dd =
               (if map_of ps hcParent = Some ddNew then map_of ps
                else fillLoop ((map_of ps)(hcParent \<mapsto> ddNew)) hcParent ddNew)"
      using False
      by (subst fillLoop.simps) (simp add: Let_def bit_def hcSibling_def ddNew_def hcParent_def)
    have R: "fillLoopA ps hc dd =
               (if map_of ps hcParent = Some ddNew then ps
                else fillLoopA ((hcParent, ddNew) # ps) hcParent ddNew)"
      using False
      by (subst fillLoopA.simps) (simp add: Let_def bit_def hcSibling_def ddNew_def hcParent_def)
    show ?thesis
    proof (cases "map_of ps hcParent = Some ddNew")
      case True
      then show ?thesis using L R by simp
    next
      case miss: False
      have "fillLoop (map_of ((hcParent, ddNew) # ps)) hcParent ddNew =
              map_of (fillLoopA ((hcParent, ddNew) # ps) hcParent ddNew)"
        using "1.IH" [OF False bit_def hcSibling_def ddNew_def hcParent_def miss] .
      then show ?thesis using L R miss by simp
    qed
  qed
qed

lemma fillTable_map_of: "fillTable (map_of ps) symbol hc = map_of (fillTableA ps symbol hc)"
  using fillLoop_map_of [of "(hc, \<lparr>dd_symbol = symbol, dd_minSize = Size hc, dd_maxSize = Size hc\<rparr>) # ps"]
  by (simp add: fillTable_def fillTableA_def Let_def)

lemma insertCodes_map_of:
  "insertCodes symbol sizes nextCodeArray (map_of ps) =
     (case insertCodesA symbol sizes nextCodeArray ps of Inl e \<Rightarrow> Inl e | Inr ps' \<Rightarrow> Inr (map_of ps'))"
proof (induction sizes arbitrary: symbol nextCodeArray ps)
  case Nil
  show ?case by simp
next
  case (Cons sz sizes)
  show ?case
    by (simp add: Let_def fillTable_map_of Cons.IH)
qed

lemma insertCodes_empty:
  "insertCodes symbol sizes nextCodeArray Map.empty =
     (case insertCodesA symbol sizes nextCodeArray [] of Inl e \<Rightarrow> Inl e | Inr ps \<Rightarrow> Inr (map_of ps))"
  using insertCodes_map_of [of symbol sizes nextCodeArray "[]"] by simp

text \<open>\<open>Decoder.Init\<close> read off from the results of its loops.\<close>

lemma Decoder_Init_accepts:
  assumes "length sizes < 2 ^ 31"
    and "countSizes sizes (replicate maxBitsPerCode 0, 0, 0, 0) = Inr (countArray, n, minSize, maxSize)"
    and "n \<noteq> 0"
    and "nextCodes countArray minSize maxSize 0 (replicate maxBitsPerCode 0) = Inr (code0, nextCodeArray)"
    and "unat maxSize < maxBitsPerCode"
    and "code0 + countArray ! unat maxSize = 1 \<and> maxSize = 1
         \<or> code0 + countArray ! unat maxSize = push_bit (unat maxSize) 1"
    and "insertCodes 0 sizes nextCodeArray Map.empty = Inr tbl"
  shows "Decoder_Init sizes =
           Inr \<lparr>d_table = tbl, d_sizes = sizes, d_minSize = minSize, d_maxSize = maxSize\<rparr>"
  using assms by (simp add: Decoder_Init_def SymbolLen_small Let_def)

lemma Decode_table:
  "Decode \<lparr>d_table = map_of ps, d_sizes = sizes, d_minSize = a, d_maxSize = b\<rparr> hc =
     (case map_of ps hc of
        None \<Rightarrow> (InvalidSymbol, 0, 0)
      | Some dd \<Rightarrow> (dd_symbol dd, dd_minSize dd, dd_maxSize dd))"
  by (simp add: Decode_def)

section \<open>The codes a Decoder assigns\<close>

text \<open>
  The third loop of \<open>Decoder.Init\<close> calls \<open>fillTable\<close> once for every symbol with a
  non-zero size. \<open>assignedCodes\<close> lists those calls: the symbol and the code, in transmission
  order, that the loop computes for it.
\<close>

fun assignedCodes :: "nat \<Rightarrow> byte list \<Rightarrow> uint32 list \<Rightarrow> (Symbol \<times> Code) list" where
  "assignedCodes symbol [] nextCodeArray = []"
| "assignedCodes symbol (sz # rest) nextCodeArray =
     (if sz = 0 then assignedCodes (Suc symbol) rest nextCodeArray
      else (word_of_nat symbol, MakeReversedCode sz (nextCodeArray ! unat sz))
             # assignedCodes (Suc symbol) rest
                 (nextCodeArray[unat sz := nextCodeArray ! unat sz + 1]))"

lemma insertCodes_assignedCodes:
  "list_all (\<lambda>sz. unat sz < maxBitsPerCode) sizes \<Longrightarrow>
   insertCodes symbol sizes nextCodeArray tbl =
     Inr (foldl (\<lambda>t (s, hc). fillTable t s hc) tbl (assignedCodes symbol sizes nextCodeArray))"
  by (induction sizes arbitrary: symbol nextCodeArray tbl) (simp_all add: Let_def)


text \<open>The codes that \<open>Decoder.Init\<close> assigns for a length sequence, by the same three loops.\<close>

definition Decoder_codes :: "byte list \<Rightarrow> (Symbol \<times> Code) list" where
  "Decoder_codes sizes =
     (let numSymbols = nat (SymbolLen sizes)
      in case countSizes (take numSymbols sizes) (replicate maxBitsPerCode 0, 0, 0, 0) of
           Inl e \<Rightarrow> []
         | Inr (countArray, n, minSize, maxSize) \<Rightarrow>
             if n = 0 then []
             else
               (case nextCodes countArray minSize maxSize 0 (replicate maxBitsPerCode 0) of
                  Inl e \<Rightarrow> []
                | Inr (code0, nextCodeArray) \<Rightarrow> assignedCodes 0 (take numSymbols sizes) nextCodeArray))"

lemma insertCodes_Inr:
  "insertCodes symbol sizes nextCodeArray tbl = Inr tbl' \<Longrightarrow>
   tbl' = foldl (\<lambda>t (s, hc). fillTable t s hc) tbl (assignedCodes symbol sizes nextCodeArray)"
  by (induction sizes arbitrary: symbol nextCodeArray tbl) (auto simp: Let_def split: if_splits)

lemma Decoder_Init_table:
  "Decoder_Init sizes = Inr d \<Longrightarrow>
   d_table d = foldl (\<lambda>t (s, hc). fillTable t s hc) Map.empty (Decoder_codes sizes)"
  by (auto simp: Decoder_Init_def Decoder_codes_def Let_def emptyDecoder_def
      split: sum.splits prod.splits if_splits dest: insertCodes_Inr)

lemma Decoder_Init_rejects:
  assumes "length sizes < 2 ^ 31"
    and "countSizes sizes (replicate maxBitsPerCode 0, 0, 0, 0) = Inr (countArray, n, minSize, maxSize)"
    and "n \<noteq> 0"
    and "nextCodes countArray minSize maxSize 0 (replicate maxBitsPerCode 0) = Inr (code0, nextCodeArray)"
    and "unat maxSize < maxBitsPerCode"
    and "\<not> (code0 + countArray ! unat maxSize = 1 \<and> maxSize = 1)"
    and "code0 + countArray ! unat maxSize \<noteq> push_bit (unat maxSize) 1"
  shows "Decoder_Init sizes = Inl (DegenerateTree (2 ^ unat maxSize) (code0 + countArray ! unat maxSize))"
  using assms by (auto simp: Decoder_Init_def SymbolLen_small Let_def)


section \<open>Sequences without a live symbol\<close>







text \<open>
  Claim C1. The round trip fails on the all-zero sequence the claim includes:
  \<open>Decoder.Init\<close> accepts \<open>[0, 0]\<close>, the Decoder it leaves is \<open>Decoder{}\<close>, whose
  \<open>SizeBySymbol()\<close> is empty and not \<open>[0, 0]\<close>, and \<open>Decoder.Encoder()\<close> panics instead of
  returning an Encoder. In the other direction no Encoder is built from \<open>[0, 0]\<close>:
  \<open>InitFromSizes\<close> panics.
\<close>

theorem round_trip_all_zero:
  "Decoder_Init [0, 0] = Inr emptyDecoder
   \<and> Decoder_SizeBySymbol emptyDecoder = []
   \<and> Decoder_Encoder emptyDecoder = Inl IndexOutOfRange
   \<and> InitFromSizes [0, 0] = Inl IndexOutOfRange"
proof -
  have a: "Decoder_Init [0, 0] = Inr emptyDecoder"
    by (simp add: Decoder_Init_def SymbolLen_def)
  have b: "InitFromSizes [] = Inl IndexOutOfRange"
    by code_simp
  have c: "InitFromSizes [0, 0] = Inl IndexOutOfRange"
    by code_simp
  show ?thesis
    using a b c
    by (simp add: Decoder_Encoder_def InitFromDecoder_def Decoder_SizeBySymbol_def
        emptyDecoder_def panicOnError_def)
qed

section \<open>A declared length of 15\<close>

lemma countSizes_index_15:
  "list_all (\<lambda>sz. unat sz \<le> maxBitsPerCode) sizes \<Longrightarrow> of_nat maxBitsPerCode \<in> set sizes
   \<Longrightarrow> countSizes sizes st = Inl IndexOutOfRange"
proof (induction sizes arbitrary: st)
  case Nil
  then show ?case by simp
next
  case (Cons sz sizes)
  obtain countArray n minSize maxSize where st: "st = (countArray, n, minSize, maxSize)"
    by (cases st) auto
  show ?case
  proof (cases "sz = 15")
    case True
    then show ?thesis by (simp add: st maxBitsPerCode_def)
  next
    case False
    then have "of_nat maxBitsPerCode \<in> set sizes"
      using Cons.prems(2) by (simp add: maxBitsPerCode_def)
    moreover have "list_all (\<lambda>sz. unat sz \<le> maxBitsPerCode) sizes"
      using Cons.prems(1) by simp
    ultimately have ih: "\<And>st'. countSizes sizes st' = Inl IndexOutOfRange"
      using Cons.IH by blast
    have "unat sz \<le> maxBitsPerCode" using Cons.prems(1) by simp
    moreover have "unat sz \<noteq> 15"
    proof
      assume "unat sz = 15"
      then have "sz = 15" by (simp add: word_unat_eq_iff)
      with False show False by simp
    qed
    ultimately have "unat sz < maxBitsPerCode" by (simp add: maxBitsPerCode_def)
    then show ?thesis
      by (simp add: st ih Let_def split: prod.splits)
  qed
qed

text \<open>
  Claim C3. The claim fails on the code: a length sequence whose entries are all at most
  \<open>maxBitsPerCode\<close> and that holds the length \<open>maxBitsPerCode\<close> itself passes the guard
  \<open>size > maxBitsPerCode\<close> and then indexes \<open>countArray\<close>, an array of \<open>maxBitsPerCode\<close>
  entries, at \<open>maxBitsPerCode\<close>: \<open>Decoder.Init\<close> panics with an index out of range.
\<close>

theorem Decoder_Init_length_15_out_of_range:
  assumes "list_all (\<lambda>sz. unat sz \<le> maxBitsPerCode) sizes"
    and "of_nat maxBitsPerCode \<in> set sizes" and "length sizes < 2 ^ 31"
  shows "Decoder_Init sizes = Inl IndexOutOfRange"
  using assms by (simp add: Decoder_Init_def SymbolLen_small countSizes_index_15)

theorem Decoder_Init_length_15_out_of_range_witness:
  "Decoder_Init [15] = Inl IndexOutOfRange
   \<and> Decoder_Init [4, 4, 3, 3, 3, 1, 15, 15] = Inl IndexOutOfRange"
  using Decoder_Init_length_15_out_of_range [of "[15]"]
    Decoder_Init_length_15_out_of_range [of "[4, 4, 3, 3, 3, 1, 15, 15]"]
  by (simp add: maxBitsPerCode_def)

text \<open>
  Below \<open>maxBitsPerCode\<close> no index leaves its array. The state of the first loop keeps,
  once a non-zero size was seen, \<open>0 < minSize \<le> maxSize < maxBitsPerCode\<close>.
\<close>

definition scanOk :: "scan \<Rightarrow> bool" where
  "scanOk st = (case st of (countArray, n, minSize, maxSize) \<Rightarrow>
      n \<noteq> 0 \<longrightarrow> minSize \<noteq> 0 \<and> minSize \<le> maxSize \<and> unat maxSize < maxBitsPerCode)"

lemma countSizes_below_15:
  "list_all (\<lambda>sz. unat sz < maxBitsPerCode) sizes \<Longrightarrow> scanOk st \<Longrightarrow>
   \<exists>st'. countSizes sizes st = Inr st' \<and> scanOk st'"
proof (induction sizes arbitrary: st)
  case Nil
  then show ?case by simp
next
  case (Cons sz sizes)
  obtain countArray n minSize maxSize where st: "st = (countArray, n, minSize, maxSize)"
    by (cases st) auto
  show ?case
  proof (cases "sz = 0")
    case True
    then show ?thesis using Cons by (simp add: st)
  next
    case False
    have lt: "unat sz < maxBitsPerCode" and rest: "list_all (\<lambda>sz. unat sz < maxBitsPerCode) sizes"
      using Cons.prems(1) by simp_all
    define mm where "mm = (if n = 0 then (sz, sz)
               else if minSize > sz then (sz, maxSize)
               else if maxSize < sz then (minSize, sz)
               else (minSize, maxSize))"
    have ok: "scanOk (countArray[unat sz := countArray ! unat sz + 1], n + 1, fst mm, snd mm)"
      using Cons.prems(2) False lt
      by (auto simp: scanOk_def st mm_def word_le_nat_alt word_less_nat_alt)
    have "countSizes (sz # sizes) st =
            countSizes sizes (countArray[unat sz := countArray ! unat sz + 1], n + 1, fst mm, snd mm)"
      using False lt by (simp add: st mm_def Let_def split: prod.splits)
    then show ?thesis using Cons.IH [OF rest ok] by simp
  qed
qed

lemma nextCodes_below_15:
  "bits \<noteq> 0 \<Longrightarrow> unat maxSize < maxBitsPerCode \<Longrightarrow>
   \<exists>r. nextCodes countArray bits maxSize code nextCodeArray = Inr r"
proof (induction countArray bits maxSize code nextCodeArray rule: nextCodes.induct)
  case (1 countArray bits maxSize code nextCodeArray)
  show ?case
  proof (cases "bits \<le> maxSize")
    case False
    then show ?thesis by (subst nextCodes.simps) simp
  next
    case True
    have b: "unat bits < maxBitsPerCode"
      using True "1.prems"(2) by (simp add: word_le_nat_alt)
    have b1: "unat (bits - 1) < maxBitsPerCode"
      using b "1.prems"(1) by (simp add: unat_minus_one)
    have nz: "bits + 1 \<noteq> 0"
    proof
      assume "bits + 1 = 0"
      then have "unat (bits + 1) = 0" by simp
      moreover have "unat (bits + 1) = unat bits + 1"
        using b by (simp add: unat_word_ariths maxBitsPerCode_def)
      ultimately show False by simp
    qed
    have "\<exists>r. nextCodes countArray (bits + 1) maxSize
            (push_bit 1 (code + countArray ! unat (bits - 1)))
            (nextCodeArray[unat bits := push_bit 1 (code + countArray ! unat (bits - 1))]) = Inr r"
      using "1.IH" [OF True _ refl nz "1.prems"(2)] b b1 by simp
    then show ?thesis
      using True b b1 by (subst nextCodes.simps) (simp add: Let_def)
  qed
qed

text \<open>
  For every length sequence whose entries are all below \<open>maxBitsPerCode\<close>, \<open>Decoder.Init\<close>
  does not panic: it succeeds or returns the degenerate-tree error.
\<close>

theorem Decoder_Init_below_15:
  assumes small: "list_all (\<lambda>sz. unat sz < maxBitsPerCode) sizes" and len: "length sizes < 2 ^ 31"
  shows "(\<exists>d. Decoder_Init sizes = Inr d) \<or> (\<exists>expected got. Decoder_Init sizes = Inl (DegenerateTree expected got))"
proof -
  have "scanOk (replicate maxBitsPerCode 0, 0, 0, 0)"
    by (simp add: scanOk_def)
  then obtain countArray n minSize maxSize
    where cs: "countSizes sizes (replicate maxBitsPerCode 0, 0, 0, 0) = Inr (countArray, n, minSize, maxSize)"
      and ok: "scanOk (countArray, n, minSize, maxSize)"
    using countSizes_below_15 [OF small] by (metis prod_cases4)
  show ?thesis
  proof (cases "n = 0")
    case True
    then show ?thesis using cs len by (simp add: Decoder_Init_def SymbolLen_small)
  next
    case False
    then have mn: "minSize \<noteq> 0" and mx: "unat maxSize < maxBitsPerCode"
      using ok by (simp_all add: scanOk_def)
    obtain code0 nextCodeArray
      where nc: "nextCodes countArray minSize maxSize 0 (replicate maxBitsPerCode 0) = Inr (code0, nextCodeArray)"
      using nextCodes_below_15 [OF mn mx] by (metis surj_pair)
    have ic: "insertCodes 0 sizes nextCodeArray Map.empty =
       Inr (foldl (\<lambda>t (s, hc). fillTable t s hc) Map.empty (assignedCodes 0 sizes nextCodeArray))"
      using insertCodes_assignedCodes [OF small] .
    show ?thesis
      using cs nc ic False mx len
      by (simp add: Decoder_Init_def SymbolLen_small Let_def)
  qed
qed

section \<open>Codes that match nothing\<close>

text \<open>
  \<open>parentCode\<close> is the code one bit shorter, as \<open>fillLoop\<close> computes it from \<open>hc\<close>: the
  last bit is flipped and then cleared, and the size goes down by one. \<open>prefixesOf\<close> lists
  the strict bit-prefixes of a code: its parent, the parent of that, down to the empty code.
\<close>
definition parentCode :: "Code \<Rightarrow> Code" where
  "parentCode hc =
     (let bit = push_bit (unat (Size hc - 1)) (1 :: uint32)
      in \<lparr>Size = Size hc - 1, Bits = (Bits hc XOR bit) AND NOT bit\<rparr>)"

function prefixesOf :: "Code \<Rightarrow> Code list" where
  "prefixesOf hc = (if Size hc = 0 then [] else parentCode hc # prefixesOf (parentCode hc))"
  by pat_completeness auto
termination
  by (relation "measure (\<lambda>hc. unat (Size hc))")
     (auto simp: parentCode_def Let_def unat_minus_one unat_gt_0)

declare prefixesOf.simps [simp del]

lemma fillLoop_dom:
  "fillLoop tbl hc dd k = Some v \<Longrightarrow> tbl k \<noteq> None \<or> k \<in> set (prefixesOf hc)"
proof (induction tbl hc dd rule: fillLoop.induct)
  case (1 tbl hc dd)
  show ?case
  proof (cases "Size hc = 0")
    case True
    then show ?thesis using "1.prems" by (subst (asm) fillLoop.simps) simp
  next
    case False
    define bit where "bit = push_bit (unat (Size hc - 1)) (1 :: uint32)"
    define hcSibling where "hcSibling = hc\<lparr>Bits := Bits hc XOR bit\<rparr>"
    define ddNew where "ddNew = mergeSibling dd (tbl hcSibling)"
    define hcParent where "hcParent = \<lparr>Size = Size hc - 1, Bits = Bits hcSibling AND NOT bit\<rparr>"
    have par: "hcParent = parentCode hc"
      by (simp add: parentCode_def Let_def hcParent_def hcSibling_def bit_def)
    have P: "prefixesOf hc = hcParent # prefixesOf hcParent"
      using False by (subst prefixesOf.simps) (simp add: par)
    have L: "fillLoop tbl hc dd =
               (if tbl hcParent = Some ddNew then tbl
                else fillLoop (tbl(hcParent \<mapsto> ddNew)) hcParent ddNew)"
      using False
      by (subst fillLoop.simps) (simp add: Let_def bit_def hcSibling_def ddNew_def hcParent_def)
    show ?thesis
    proof (cases "tbl hcParent = Some ddNew")
      case True
      then show ?thesis using L "1.prems" by simp
    next
      case miss: False
      have "fillLoop (tbl(hcParent \<mapsto> ddNew)) hcParent ddNew k = Some v"
        using L miss "1.prems" by simp
      then have "(tbl(hcParent \<mapsto> ddNew)) k \<noteq> None \<or> k \<in> set (prefixesOf hcParent)"
        using "1.IH" [OF False bit_def hcSibling_def ddNew_def hcParent_def miss] by blast
      then show ?thesis using P by (auto split: if_splits)
    qed
  qed
qed

lemma fillTable_dom:
  "fillTable tbl s hc k = Some v \<Longrightarrow> tbl k \<noteq> None \<or> k = hc \<or> k \<in> set (prefixesOf hc)"
  unfolding fillTable_def Let_def
  by (drule fillLoop_dom) (auto split: if_splits)

lemma foldl_fillTable_dom:
  "foldl (\<lambda>t (s, hc). fillTable t s hc) tbl codes k = Some v \<Longrightarrow>
   tbl k \<noteq> None \<or> (\<exists>(s, hc) \<in> set codes. k = hc \<or> k \<in> set (prefixesOf hc))"
proof (induction codes arbitrary: tbl)
  case Nil
  then show ?case by simp
next
  case (Cons a codes)
  obtain s hc where a: "a = (s, hc)" by (cases a)
  from Cons.prems have "foldl (\<lambda>t (s, hc). fillTable t s hc) (fillTable tbl s hc) codes k = Some v"
    by (simp add: a)
  then have "fillTable tbl s hc k \<noteq> None \<or> (\<exists>(s, hc) \<in> set codes. k = hc \<or> k \<in> set (prefixesOf hc))"
    by (rule Cons.IH)
  then show ?case
    using fillTable_dom [of tbl s hc k] by (auto simp: a)
qed

text \<open>
  The table holds nothing but the assigned codes and their strict prefixes: for every length
  sequence that \<open>Decoder.Init\<close> accepts, a code that is neither assigned nor a strict
  prefix of an assigned code decodes to \<open>(InvalidSymbol, 0, 0)\<close>.
\<close>

theorem Decode_no_match:
  assumes "Decoder_Init sizes = Inr d"
    and "list_all (\<lambda>(s, c). hc \<noteq> c \<and> hc \<notin> set (prefixesOf c)) (Decoder_codes sizes)"
  shows "Decode d hc = (InvalidSymbol, 0, 0)"
proof -
  have t: "d_table d = foldl (\<lambda>t (s, hc). fillTable t s hc) Map.empty (Decoder_codes sizes)"
    using assms(1) by (rule Decoder_Init_table)
  have "d_table d hc = None"
  proof (rule ccontr)
    assume "d_table d hc \<noteq> None"
    then obtain v where "d_table d hc = Some v" by auto
    then have "\<exists>(s, c) \<in> set (Decoder_codes sizes). hc = c \<or> hc \<in> set (prefixesOf c)"
      using foldl_fillTable_dom [of Map.empty "Decoder_codes sizes" hc v] t by simp
    then show False using assms(2) by (auto simp: list_all_iff)
  qed
  then show ?thesis by (simp add: Decode_def)
qed

section \<open>The scenarios of the tests\<close>

definition scenarioTable :: tableList where
  "scenarioTable =
     [(MakeCode 0 0, \<lparr>dd_symbol = InvalidSymbol, dd_minSize = 1, dd_maxSize = 4\<rparr>),
      (MakeCode 1 0, \<lparr>dd_symbol = 5, dd_minSize = 1, dd_maxSize = 1\<rparr>),
      (MakeCode 2 3, \<lparr>dd_symbol = InvalidSymbol, dd_minSize = 3, dd_maxSize = 4\<rparr>),
      (MakeCode 3 3, \<lparr>dd_symbol = 4, dd_minSize = 3, dd_maxSize = 3\<rparr>),
      (MakeCode 3 5, \<lparr>dd_symbol = 3, dd_minSize = 3, dd_maxSize = 3\<rparr>),
      (MakeCode 0 0, \<lparr>dd_symbol = InvalidSymbol, dd_minSize = 3, dd_maxSize = 4\<rparr>),
      (MakeCode 1 1, \<lparr>dd_symbol = InvalidSymbol, dd_minSize = 3, dd_maxSize = 4\<rparr>),
      (MakeCode 2 1, \<lparr>dd_symbol = InvalidSymbol, dd_minSize = 3, dd_maxSize = 3\<rparr>),
      (MakeCode 3 1, \<lparr>dd_symbol = 2, dd_minSize = 3, dd_maxSize = 3\<rparr>),
      (MakeCode 4 15, \<lparr>dd_symbol = 1, dd_minSize = 4, dd_maxSize = 4\<rparr>),
      (MakeCode 0 0, \<lparr>dd_symbol = InvalidSymbol, dd_minSize = 4, dd_maxSize = 4\<rparr>),
      (MakeCode 1 1, \<lparr>dd_symbol = InvalidSymbol, dd_minSize = 4, dd_maxSize = 4\<rparr>),
      (MakeCode 2 3, \<lparr>dd_symbol = InvalidSymbol, dd_minSize = 4, dd_maxSize = 4\<rparr>),
      (MakeCode 3 7, \<lparr>dd_symbol = InvalidSymbol, dd_minSize = 4, dd_maxSize = 4\<rparr>),
      (MakeCode 4 7, \<lparr>dd_symbol = 0, dd_minSize = 4, dd_maxSize = 4\<rparr>)]"

lemma scenario_countSizes:
  "countSizes [4, 4, 3, 3, 3, 1] (replicate maxBitsPerCode 0, 0, 0, 0) =
     Inr ([0, 1, 0, 3, 2, 0, 0, 0, 0, 0, 0, 0, 0, 0, 0], 6, 1, 4)"
  by code_simp

lemma scenario_nextCodes:
  "nextCodes [0, 1, 0, 3, 2, 0, 0, 0, 0, 0, 0, 0, 0, 0, 0] 1 4 0 (replicate maxBitsPerCode 0) =
     Inr (14, [0, 0, 2, 4, 14, 0, 0, 0, 0, 0, 0, 0, 0, 0, 0])"
  by code_simp

lemma scenario_insertCodes:
  "insertCodesA 0 [4, 4, 3, 3, 3, 1] [0, 0, 2, 4, 14, 0, 0, 0, 0, 0, 0, 0, 0, 0, 0] [] =
     Inr scenarioTable"
  by code_simp

lemma scenario_Decoder:
  "Decoder_Init [4, 4, 3, 3, 3, 1] =
     Inr \<lparr>d_table = map_of scenarioTable, d_sizes = [4, 4, 3, 3, 3, 1],
          d_minSize = 1, d_maxSize = 4\<rparr>"
proof (rule Decoder_Init_accepts [OF _ scenario_countSizes _ scenario_nextCodes])
  show "insertCodes 0 [4, 4, 3, 3, 3, 1] [0, 0, 2, 4, 14, 0, 0, 0, 0, 0, 0, 0, 0, 0, 0] Map.empty =
          Inr (map_of scenarioTable)"
    by (simp only: insertCodes_empty scenario_insertCodes sum.case)
qed (simp_all add: maxBitsPerCode_def)

text \<open>
  Claim C5 (Scenario A). From the lengths \<open>[4, 4, 3, 3, 3, 1]\<close>, \<open>InitFromSizes\<close> builds the
  Encoder whose codes, in transmission order, are \<open>0111\<close> and \<open>1111\<close> for the symbols 0 and
  1, \<open>001\<close>, \<open>101\<close> and \<open>011\<close> for the symbols 2, 3 and 4, and the one-bit code \<open>0\<close> for the
  symbol 5, with \<open>MinSize() = 1\<close> and \<open>MaxSize() = 4\<close>; \<open>Decoder.Init\<close> builds a Decoder
  that decodes exactly these codes to these symbols, with the same \<open>MinSize()\<close> and \<open>MaxSize()\<close>.
\<close>

theorem scenario_A:
  "InitFromSizes [4, 4, 3, 3, 3, 1] =
     Inr \<lparr>e_codes = [MakeCode 4 7, MakeCode 4 15, MakeCode 3 1, MakeCode 3 5, MakeCode 3 3,
                      MakeCode 1 0],
          e_minSize = 1, e_maxSize = 4\<rparr>
   \<and> (\<exists>d. Decoder_Init [4, 4, 3, 3, 3, 1] = Inr d
          \<and> Decode d (MakeCode 1 0) = (5, 1, 1)
          \<and> Decode d (MakeCode 3 1) = (2, 3, 3)
          \<and> Decode d (MakeCode 3 5) = (3, 3, 3)
          \<and> Decode d (MakeCode 3 3) = (4, 3, 3)
          \<and> Decode d (MakeCode 4 7) = (0, 4, 4)
          \<and> Decode d (MakeCode 4 15) = (1, 4, 4)
          \<and> Decoder_MinSize d = 1 \<and> Decoder_MaxSize d = 4)"
proof -
  have enc: "InitFromSizes [4, 4, 3, 3, 3, 1] =
     Inr \<lparr>e_codes = [MakeCode 4 7, MakeCode 4 15, MakeCode 3 1, MakeCode 3 5, MakeCode 3 3,
                      MakeCode 1 0],
          e_minSize = 1, e_maxSize = 4\<rparr>"
    by code_simp
  show ?thesis
    unfolding scenario_Decoder
    by (simp add: enc Decode_table Decoder_MinSize_def Decoder_MaxSize_def)
      (simp add: scenarioTable_def MakeCode_def)
qed

text \<open>
  Claim C6 (Scenario B). \<open>Encoder.Init\<close> with 6 symbols and the frequencies
  \<open>[5, 9, 12, 13, 16, 45]\<close> has six nodes, so it takes the path through \<open>firstPass\<close>, whose
  heap and tree walk give the sizes \<open>[4, 4, 3, 3, 3, 1]\<close>; the Encoder it returns has exactly
  these sizes, and the codes of Scenario A.
\<close>

theorem scenario_B:
  "length (collectNodes 0 [5, 9, 12, 13, 16, 45]) = 6
   \<and> (\<exists>codes. firstPass (replicate 6 zeroCode) (collectNodes 0 [5, 9, 12, 13, 16, 45]) 0 0 =
                 Some (Inr (codes, 1, 4))
        \<and> map Size codes = [4, 4, 3, 3, 3, 1])
   \<and> (\<exists>e. Encoder_Init 6 [5, 9, 12, 13, 16, 45] = Some (Inr e)
        \<and> Encoder_SizeBySymbol e = Inr [4, 4, 3, 3, 3, 1]
        \<and> e_codes e = [MakeCode 4 7, MakeCode 4 15, MakeCode 3 1, MakeCode 3 5, MakeCode 3 3,
                        MakeCode 1 0])"
proof -
  have n: "length (collectNodes 0 [5, 9, 12, 13, 16, 45]) = 6"
    by code_simp
  have f: "firstPass (replicate 6 zeroCode) (collectNodes 0 [5, 9, 12, 13, 16, 45]) 0 0 =
             Some (Inr (map (\<lambda>sz. \<lparr>Size = sz, Bits = 0\<rparr>) [4, 4, 3, 3, 3, 1], 1, 4))"
    by code_simp
  have e: "Encoder_Init 6 [5, 9, 12, 13, 16, 45] =
             Some (Inr \<lparr>e_codes = [MakeCode 4 7, MakeCode 4 15, MakeCode 3 1, MakeCode 3 5,
                                   MakeCode 3 3, MakeCode 1 0],
                       e_minSize = 1, e_maxSize = 4\<rparr>)"
    by code_simp
  have s: "Encoder_SizeBySymbol
             \<lparr>e_codes = [MakeCode 4 7, MakeCode 4 15, MakeCode 3 1, MakeCode 3 5,
                         MakeCode 3 3, MakeCode 1 0],
              e_minSize = 1, e_maxSize = 4\<rparr> = Inr [4, 4, 3, 3, 3, 1]"
    by code_simp
  show ?thesis
    unfolding n f e by (simp add: s)
qed

section \<open>A length sequence on which the completeness sum wraps\<close>

text \<open>
  \<open>wrapSizes\<close> has 524288 symbols of length 1 followed by 16384 symbols of length 14. Its
  code space, counted in units of the longest code, is \<open>524288 * 2^13 + 16384 = 2^32 + 2^14\<close>;
  the \<open>uint32\<close> variable \<open>code\<close> of \<open>Decoder.Init\<close> holds \<open>2^14\<close> at the end.
\<close>

lemma countSizes_run:
  assumes "sz \<noteq> 0" and "unat sz < maxBitsPerCode" and "unat sz < length c" and "n \<noteq> 0"
    and "\<not> mn > sz" and "\<not> mx < sz" and "unat n + k < 2 ^ 32"
  shows "countSizes (replicate k sz @ rest) (c, n, mn, mx) =
           countSizes rest (c[unat sz := c ! unat sz + of_nat k], n + of_nat k, mn, mx)"
  using assms(3,4,7)
proof (induction k arbitrary: c n)
  case 0
  then show ?case by simp
next
  case (Suc k)
  have n1: "n + 1 \<noteq> 0"
  proof
    assume "n + 1 = 0"
    then have "unat (n + 1) = 0" by simp
    moreover have "unat (n + 1) = unat n + 1"
      using Suc.prems(3) by (simp add: unat_word_ariths)
    ultimately show False by simp
  qed
  have len: "unat sz < length (c[unat sz := c ! unat sz + 1])"
    using Suc.prems(1) by simp
  have bound: "unat (n + 1) + k < 2 ^ 32"
    using Suc.prems(3) by (simp add: unat_word_ariths)
  have "countSizes (replicate (Suc k) sz @ rest) (c, n, mn, mx) =
          countSizes (replicate k sz @ rest) (c[unat sz := c ! unat sz + 1], n + 1, mn, mx)"
    using assms(1,2,5,6) Suc.prems(2) by (simp add: maxBitsPerCode_def)
  also have "\<dots> = countSizes rest
       ((c[unat sz := c ! unat sz + 1])[unat sz := (c[unat sz := c ! unat sz + 1]) ! unat sz + of_nat k],
        n + 1 + of_nat k, mn, mx)"
    using Suc.IH [OF len n1 bound] .
  finally have step: "countSizes (replicate (Suc k) sz @ rest) (c, n, mn, mx) =
      countSizes rest
       ((c[unat sz := c ! unat sz + 1])[unat sz := (c[unat sz := c ! unat sz + 1]) ! unat sz + of_nat k],
        n + 1 + of_nat k, mn, mx)" .
  have e1: "(c[unat sz := c ! unat sz + 1])[unat sz := (c[unat sz := c ! unat sz + 1]) ! unat sz + of_nat k]
        = c[unat sz := c ! unat sz + of_nat (Suc k)]"
    using Suc.prems(1) by (simp add: ac_simps)
  have e2: "n + 1 + of_nat k = n + of_nat (Suc k)"
    by simp
  show ?case
    unfolding step e1 e2 ..
qed

definition wrapSizes :: "byte list" where
  "wrapSizes = replicate 524288 1 @ replicate 16384 14"

lemma wrapSizes_unfold:
  "wrapSizes = 1 # 1 # 1 # replicate 524285 1 @ 14 # replicate 16383 14 @ []"
proof -
  have a: "(524288 :: nat) = Suc (Suc (Suc 524285))" and b: "(16384 :: nat) = Suc 16383"
    by simp_all
  show ?thesis
    unfolding wrapSizes_def by (subst a, subst b) (simp only: replicate_Suc append_Cons append_Nil2)
qed

lemma wrapSizes_countSizes:
  "countSizes wrapSizes (replicate maxBitsPerCode 0, 0, 0, 0) =
     Inr ([0, 524288, 0, 0, 0, 0, 0, 0, 0, 0, 0, 0, 0, 0, 16384], 540672, 1, 14)"
proof -
  have r1: "countSizes (replicate 524285 1 @ rest) ([0, 3, 0, 0, 0, 0, 0, 0, 0, 0, 0, 0, 0, 0, 0], 3, 1, 1) =
        countSizes rest ([0, 524288, 0, 0, 0, 0, 0, 0, 0, 0, 0, 0, 0, 0, 0], 524288, 1, 1)" for rest
    by (subst countSizes_run) (simp_all add: maxBitsPerCode_def)
  have r2: "countSizes (replicate 16383 14 @ rest) ([0, 524288, 0, 0, 0, 0, 0, 0, 0, 0, 0, 0, 0, 0, 1], 524289, 1, 14) =
        countSizes rest ([0, 524288, 0, 0, 0, 0, 0, 0, 0, 0, 0, 0, 0, 0, 16384], 540672, 1, 14)" for rest
    by (subst countSizes_run) (simp_all add: maxBitsPerCode_def)
  have s: "replicate maxBitsPerCode (0 :: uint32) = [0, 0, 0, 0, 0, 0, 0, 0, 0, 0, 0, 0, 0, 0, 0]"
    by (simp add: maxBitsPerCode_def numeral_eq_Suc)
  show ?thesis
    unfolding wrapSizes_unfold s
    by (simp add: maxBitsPerCode_def r1 r2 [of "[]", simplified])
qed

lemma wrapSizes_nextCodes:
  "nextCodes [0, 524288, 0, 0, 0, 0, 0, 0, 0, 0, 0, 0, 0, 0, 16384] 1 14 0 (replicate maxBitsPerCode 0) =
     Inr (0, [0, 0, 1048576, 2097152, 4194304, 8388608, 16777216, 33554432,
          67108864, 134217728, 268435456, 536870912, 1073741824, 2147483648, 0])"
  by code_simp

lemma wrapSizes_in_range: "list_all (\<lambda>sz. unat sz < maxBitsPerCode) wrapSizes"
  by (simp add: wrapSizes_def list_all_iff maxBitsPerCode_def)

lemma wrapSizes_length: "length wrapSizes = 540672"
  by (simp add: wrapSizes_def)

definition wrapNext :: "uint32 list" where
  "wrapNext = [0, 0, 1048576, 2097152, 4194304, 8388608, 16777216, 33554432,
          67108864, 134217728, 268435456, 536870912, 1073741824, 2147483648, 0]"

lemma wrapSizes_accepted:
  "Decoder_Init wrapSizes =
     Inr \<lparr>d_table = foldl (\<lambda>t (s, hc). fillTable t s hc) Map.empty (assignedCodes 0 wrapSizes wrapNext),
          d_sizes = wrapSizes, d_minSize = 1, d_maxSize = 14\<rparr>"
proof (rule Decoder_Init_accepts [OF _ wrapSizes_countSizes _ wrapSizes_nextCodes])
  show "insertCodes 0 wrapSizes
     [0, 0, 1048576, 2097152, 4194304, 8388608, 16777216, 33554432,
          67108864, 134217728, 268435456, 536870912, 1073741824, 2147483648, 0] Map.empty =
    Inr (foldl (\<lambda>t (s, hc). fillTable t s hc) Map.empty (assignedCodes 0 wrapSizes wrapNext))"
    using insertCodes_assignedCodes [OF wrapSizes_in_range] by (simp add: wrapNext_def)
qed (simp_all add: maxBitsPerCode_def wrapSizes_length)

text \<open>
  The first three symbols of \<open>wrapSizes\<close> get the codes 0, 1 and 2 of length 1; reversed
  over one bit, the third is the code of the first again. \<open>wrapRest\<close> is what the loop
  assigns from the fourth symbol on.
\<close>

definition wrapRest :: "(Symbol \<times> Code) list" where
  "wrapRest =
     assignedCodes 3 (replicate 524285 1 @ 14 # replicate 16383 14 @ []) (wrapNext[1 := 3])"

lemma wrapSizes_assigned:
  "assignedCodes 0 wrapSizes wrapNext =
      (0, MakeCode 1 0) # (1, MakeCode 1 1) # (2, MakeCode 1 0) # wrapRest"
proof -
  have r: "reverseBits 1 0 = 0" "reverseBits 1 1 = 1" "reverseBits 1 2 = 0"
    by code_simp+
  show ?thesis
    unfolding wrapSizes_unfold wrapNext_def wrapRest_def
    by (simp add: MakeReversedCode_def r numeral_3_eq_3)
qed

lemma wrapSizes_codes:
  "Decoder_codes wrapSizes = (0, MakeCode 1 0) # (1, MakeCode 1 1) # (2, MakeCode 1 0) # wrapRest"
proof -
  have "Decoder_codes wrapSizes = assignedCodes 0 wrapSizes wrapNext"
    by (simp add: Decoder_codes_def SymbolLen_small wrapSizes_length wrapSizes_countSizes
        wrapSizes_nextCodes wrapNext_def)
  then show ?thesis using wrapSizes_assigned by simp
qed

text \<open>
  Once no entry of the table names a symbol \<open>x\<close>, later calls of \<open>fillTable\<close> for other
  symbols never bring it back: they write the symbol they are given, or \<open>InvalidSymbol\<close>.
\<close>

definition noSymbol :: "Symbol \<Rightarrow> table \<Rightarrow> bool" where
  "noSymbol x tbl = (\<forall>hc dd. tbl hc = Some dd \<longrightarrow> dd_symbol dd \<noteq> x)"

lemma mergeSibling_symbol [simp]: "dd_symbol (mergeSibling dd sib) = InvalidSymbol"
  by (simp add: mergeSibling_def Let_def split: option.splits)

lemma fillLoop_noSymbol:
  "noSymbol x tbl \<Longrightarrow> x \<noteq> InvalidSymbol \<Longrightarrow> noSymbol x (fillLoop tbl hc dd)"
proof (induction tbl hc dd rule: fillLoop.induct)
  case (1 tbl hc dd)
  show ?case
  proof (cases "Size hc = 0")
    case True
    then show ?thesis using "1.prems" by (subst fillLoop.simps) simp
  next
    case False
    define bit where "bit = push_bit (unat (Size hc - 1)) (1 :: uint32)"
    define hcSibling where "hcSibling = hc\<lparr>Bits := Bits hc XOR bit\<rparr>"
    define ddNew where "ddNew = mergeSibling dd (tbl hcSibling)"
    define hcParent where "hcParent = \<lparr>Size = Size hc - 1, Bits = Bits hcSibling AND NOT bit\<rparr>"
    have L: "fillLoop tbl hc dd =
               (if tbl hcParent = Some ddNew then tbl
                else fillLoop (tbl(hcParent \<mapsto> ddNew)) hcParent ddNew)"
      using False
      by (subst fillLoop.simps) (simp add: Let_def bit_def hcSibling_def ddNew_def hcParent_def)
    show ?thesis
    proof (cases "tbl hcParent = Some ddNew")
      case True
      then show ?thesis using L "1.prems" by simp
    next
      case miss: False
      have "noSymbol x (tbl(hcParent \<mapsto> ddNew))"
        using "1.prems" by (auto simp: noSymbol_def ddNew_def)
      then have "noSymbol x (fillLoop (tbl(hcParent \<mapsto> ddNew)) hcParent ddNew)"
        using "1.IH" [OF False bit_def hcSibling_def ddNew_def hcParent_def miss] "1.prems"(2)
        by blast
      then show ?thesis using L miss by simp
    qed
  qed
qed

lemma fillTable_noSymbol:
  "noSymbol x tbl \<Longrightarrow> x \<noteq> InvalidSymbol \<Longrightarrow> s \<noteq> x \<Longrightarrow> noSymbol x (fillTable tbl s hc)"
  unfolding fillTable_def Let_def
  by (rule fillLoop_noSymbol) (auto simp: noSymbol_def)

lemma foldl_fillTable_noSymbol:
  "noSymbol x tbl \<Longrightarrow> x \<noteq> InvalidSymbol \<Longrightarrow> list_all (\<lambda>(s, hc). s \<noteq> x) codes \<Longrightarrow>
   noSymbol x (foldl (\<lambda>t (s, hc). fillTable t s hc) tbl codes)"
  by (induction codes arbitrary: tbl) (auto simp: fillTable_noSymbol)

lemma assignedCodes_symbols:
  "0 < k \<Longrightarrow> k + length sizes < 2 ^ 32 \<Longrightarrow>
   list_all (\<lambda>(s, hc). s \<noteq> 0) (assignedCodes k sizes nextCodeArray)"
proof (induction sizes arbitrary: k nextCodeArray)
  case Nil
  then show ?case by simp
next
  case (Cons sz sizes)
  have "unat (word_of_nat k :: 32 word) = k"
    using Cons.prems by (simp add: unat_of_nat)
  then have "(word_of_nat k :: 32 word) \<noteq> 0"
    using Cons.prems(1) by auto
  then show ?case using Cons by simp
qed

lemma first_three_table:
  "foldl (\<lambda>t (s, hc). fillTable t s hc) Map.empty
      [(0, MakeCode 1 0), (1, MakeCode 1 1), (2, MakeCode 1 0)] =
   map_of [(MakeCode 1 0, \<lparr>dd_symbol = 2, dd_minSize = 1, dd_maxSize = 1\<rparr>),
           (MakeCode 1 1, \<lparr>dd_symbol = 1, dd_minSize = 1, dd_maxSize = 1\<rparr>),
           (MakeCode 0 0, \<lparr>dd_symbol = InvalidSymbol, dd_minSize = 1, dd_maxSize = 1\<rparr>),
           (MakeCode 1 0, \<lparr>dd_symbol = 0, dd_minSize = 1, dd_maxSize = 1\<rparr>)]"
proof -
  have "fillTableA (fillTableA (fillTableA [] 0 (MakeCode 1 0)) 1 (MakeCode 1 1)) 2 (MakeCode 1 0) =
          [(MakeCode 1 0, \<lparr>dd_symbol = 2, dd_minSize = 1, dd_maxSize = 1\<rparr>),
           (MakeCode 1 1, \<lparr>dd_symbol = 1, dd_minSize = 1, dd_maxSize = 1\<rparr>),
           (MakeCode 0 0, \<lparr>dd_symbol = InvalidSymbol, dd_minSize = 1, dd_maxSize = 1\<rparr>),
           (MakeCode 1 0, \<lparr>dd_symbol = 0, dd_minSize = 1, dd_maxSize = 1\<rparr>)]"
    by code_simp
  moreover have "foldl (\<lambda>t (s, hc). fillTable t s hc) Map.empty
      [(0, MakeCode 1 0), (1, MakeCode 1 1), (2, MakeCode 1 0)] =
      map_of (fillTableA (fillTableA (fillTableA [] 0 (MakeCode 1 0)) 1 (MakeCode 1 1)) 2 (MakeCode 1 0))"
    using fillTable_map_of [of "[]" 0 "MakeCode 1 0"]
    by (simp add: fillTable_map_of [symmetric])
  ultimately show ?thesis by simp
qed

text \<open>
  The specification's completeness sum, in exact arithmetic: the sum of
  \<open>2^(maxSize - length)\<close> over the live symbols. It is written after the specification's
  words, to be set against the \<open>code\<close> that \<open>Decoder.Init\<close> computes.
\<close>

definition spec_codeSpace :: "byte list \<Rightarrow> nat \<Rightarrow> nat" where
  "spec_codeSpace sizes maxSize = (\<Sum>sz \<leftarrow> filter (\<lambda>sz. sz \<noteq> 0) sizes. 2 ^ (maxSize - unat sz))"

text \<open>
  Claim C7. The two concrete cases hold: \<open>Init([1,1,1])\<close> fails with the degenerate-tree
  error (expected 2, got 3: oversubscribed), and \<open>Init([1])\<close> succeeds and decodes the
  one-bit code 0 to the symbol 0. The completeness check itself is not enforced on
  \<open>wrapSizes\<close>: its 540672 live symbols consume \<open>2^32 + 2^14\<close>, not \<open>2^14\<close>; the loop
  over the lengths leaves \<open>code = 0\<close>, adding the count of the length 14 gives \<open>2^14\<close>, and
  \<open>Decoder.Init\<close> accepts the sequence with \<open>MaxSize() = 14\<close>.
\<close>

theorem completeness_check_wraps:
  "Decoder_Init [1, 1, 1] = Inl (DegenerateTree 2 3)
   \<and> (\<exists>d. Decoder_Init [1] = Inr d \<and> Decode d (MakeCode 1 0) = (0, 1, 1))
   \<and> countSizes wrapSizes (replicate maxBitsPerCode 0, 0, 0, 0) =
       Inr ([0, 524288, 0, 0, 0, 0, 0, 0, 0, 0, 0, 0, 0, 0, 16384], 540672, 1, 14)
   \<and> nextCodes [0, 524288, 0, 0, 0, 0, 0, 0, 0, 0, 0, 0, 0, 0, 16384] 1 14 0
         (replicate maxBitsPerCode 0) = Inr (0, wrapNext)
   \<and> (\<exists>d. Decoder_Init wrapSizes = Inr d \<and> Decoder_MaxSize d = 14)
   \<and> length (filter (\<lambda>sz. sz \<noteq> 0) wrapSizes) = 540672
   \<and> spec_codeSpace wrapSizes 14 = 2 ^ 32 + 2 ^ 14"
proof -
  have w: "nextCodes [0, 524288, 0, 0, 0, 0, 0, 0, 0, 0, 0, 0, 0, 0, 16384] 1 14 0
         (replicate maxBitsPerCode 0) = Inr (0, wrapNext)"
    using wrapSizes_nextCodes by (simp add: wrapNext_def)
  have c3: "countSizes [1, 1, 1] (replicate maxBitsPerCode 0, 0, 0, 0) =
              Inr ([0, 3, 0, 0, 0, 0, 0, 0, 0, 0, 0, 0, 0, 0, 0], 3, 1, 1)"
    by code_simp
  have n3: "nextCodes [0, 3, 0, 0, 0, 0, 0, 0, 0, 0, 0, 0, 0, 0, 0] 1 1 0 (replicate maxBitsPerCode 0) =
              Inr (0, [0, 0, 0, 0, 0, 0, 0, 0, 0, 0, 0, 0, 0, 0, 0])"
    by code_simp
  have a: "Decoder_Init [1, 1, 1] = Inl (DegenerateTree 2 3)"
    using Decoder_Init_rejects [OF _ c3 _ n3] by (simp add: maxBitsPerCode_def)
  have c1: "countSizes [1] (replicate maxBitsPerCode 0, 0, 0, 0) =
              Inr ([0, 1, 0, 0, 0, 0, 0, 0, 0, 0, 0, 0, 0, 0, 0], 1, 1, 1)"
    by code_simp
  have n1: "nextCodes [0, 1, 0, 0, 0, 0, 0, 0, 0, 0, 0, 0, 0, 0, 0] 1 1 0 (replicate maxBitsPerCode 0) =
              Inr (0, [0, 0, 0, 0, 0, 0, 0, 0, 0, 0, 0, 0, 0, 0, 0])"
    by code_simp
  have i1: "insertCodesA 0 [1] [0, 0, 0, 0, 0, 0, 0, 0, 0, 0, 0, 0, 0, 0, 0] [] =
              Inr [(MakeCode 0 0, \<lparr>dd_symbol = InvalidSymbol, dd_minSize = 1, dd_maxSize = 1\<rparr>),
                   (MakeCode 1 0, \<lparr>dd_symbol = 0, dd_minSize = 1, dd_maxSize = 1\<rparr>)]"
    by code_simp
  have dec1: "Decoder_Init [1] =
          Inr \<lparr>d_table = map_of [(MakeCode 0 0, \<lparr>dd_symbol = InvalidSymbol, dd_minSize = 1, dd_maxSize = 1\<rparr>),
                   (MakeCode 1 0, \<lparr>dd_symbol = 0, dd_minSize = 1, dd_maxSize = 1\<rparr>)],
               d_sizes = [1], d_minSize = 1, d_maxSize = 1\<rparr>"
  proof (rule Decoder_Init_accepts [OF _ c1 _ n1])
    show "insertCodes 0 [1] [0, 0, 0, 0, 0, 0, 0, 0, 0, 0, 0, 0, 0, 0, 0] Map.empty =
       Inr (map_of [(MakeCode 0 0, \<lparr>dd_symbol = InvalidSymbol, dd_minSize = 1, dd_maxSize = 1\<rparr>),
                   (MakeCode 1 0, \<lparr>dd_symbol = 0, dd_minSize = 1, dd_maxSize = 1\<rparr>)])"
      by (simp only: insertCodes_empty i1 sum.case)
  qed (simp_all add: maxBitsPerCode_def)
  have b: "\<exists>d. Decoder_Init [1] = Inr d \<and> Decode d (MakeCode 1 0) = (0, 1, 1)"
    unfolding dec1 by (simp add: Decode_def MakeCode_def)
  have c: "\<exists>d. Decoder_Init wrapSizes = Inr d \<and> Decoder_MaxSize d = 14"
    by (simp add: wrapSizes_accepted Decoder_MaxSize_def)
  have d: "length (filter (\<lambda>sz. sz \<noteq> 0) wrapSizes) = 540672"
    by (simp add: wrapSizes_def)
  have e: "spec_codeSpace wrapSizes 14 = 2 ^ 32 + 2 ^ 14"
    by (simp add: spec_codeSpace_def wrapSizes_def sum_list_replicate)
  from a b c d e w wrapSizes_countSizes show ?thesis by blast
qed


text \<open>
  Claim C2. \<open>Decoder.Init\<close> accepts \<open>wrapSizes\<close> and assigns the live symbols 0 and 2
  the same one-bit code 0. The entry of the symbol 0 is overwritten, and \<open>Decode\<close> of the code
  assigned to the symbol 0 does not return the symbol 0.
\<close>

theorem decode_loses_symbol:
  "\<exists>d. Decoder_Init wrapSizes = Inr d
       \<and> (0, MakeCode 1 0) \<in> set (Decoder_codes wrapSizes)
       \<and> (2, MakeCode 1 0) \<in> set (Decoder_codes wrapSizes)
       \<and> fst (Decode d (MakeCode 1 0)) \<noteq> 0"
proof -
  let ?t3 = "foldl (\<lambda>t (s, hc). fillTable t s hc) Map.empty
      [(0, MakeCode 1 0), (1, MakeCode 1 1), (2, MakeCode 1 0)]"
  have tbl: "foldl (\<lambda>t (s, hc). fillTable t s hc) Map.empty (assignedCodes 0 wrapSizes wrapNext) =
      foldl (\<lambda>t (s, hc). fillTable t s hc) ?t3 wrapRest"
    by (simp add: wrapSizes_assigned)
  have a: "noSymbol 0 ?t3"
    unfolding first_three_table
    by (auto simp: noSymbol_def MakeCode_def InvalidSymbol_def split: if_splits)
  have b: "list_all (\<lambda>(s, hc). s \<noteq> 0) wrapRest"
    unfolding wrapRest_def by (rule assignedCodes_symbols) simp_all
  have "noSymbol 0 (foldl (\<lambda>t (s, hc). fillTable t s hc) ?t3 wrapRest)"
    by (rule foldl_fillTable_noSymbol [OF a _ b]) (simp add: InvalidSymbol_def)
  then have "fst (Decode \<lparr>d_table = foldl (\<lambda>t (s, hc). fillTable t s hc) ?t3 wrapRest,
        d_sizes = wrapSizes, d_minSize = 1, d_maxSize = 14\<rparr> (MakeCode 1 0)) \<noteq> 0"
    by (auto simp: Decode_def noSymbol_def InvalidSymbol_def split: option.splits)
  then show ?thesis
    unfolding wrapSizes_accepted tbl wrapSizes_codes by simp
qed

section \<open>Frequencies whose tree is deeper than maxBitsPerCode\<close>

lemma Encoder_Init_firstPass:
  assumes "1 \<le> numSymbols" and "numSymbols \<le> MaxSymbol" and "int (length frequencies) \<le> numSymbols"
    and "2 < length (collectNodes 0 frequencies)"
    and "firstPass (replicate (nat numSymbols) zeroCode) (collectNodes 0 frequencies) 0 0 =
           Some (Inr (codes1, minSize, maxSize))"
    and "secondPass codes1 = (codes2, err)"
    and "\<not> (case err of None \<Rightarrow> False | Some e \<Rightarrow> isPanic e)"
  shows "Encoder_Init numSymbols frequencies =
           Some (Inr \<lparr>e_codes = codes2, e_minSize = minSize, e_maxSize = maxSize\<rparr>)"
  using assms by (simp add: Encoder_Init_def Let_def)


text \<open>
  Seventeen symbols with the frequencies \<open>1, 2, 4, ..., 65536\<close>: every sum of the smaller
  ones is below the next, so the tree is a chain and the two rarest symbols get the length 16.
\<close>

definition skewedFrequencies :: "uint32 list" where
  "skewedFrequencies =
     [1, 2, 4, 8, 16, 32, 64, 128, 256, 512, 1024, 2048, 4096, 8192, 16384, 32768, 65536]"

definition skewedCodes :: "Code list" where
  "skewedCodes = map (\<lambda>sz. MakeCode sz 0) [16, 16, 15, 14, 13, 12, 11, 10, 9, 8, 7, 6, 5, 4, 3, 2, 1]"

lemma skewed_nodes: "length (collectNodes 0 skewedFrequencies) = 17"
  by code_simp

lemma skewed_firstPass:
  "firstPass (replicate (nat 17) zeroCode) (collectNodes 0 skewedFrequencies) 0 0 =
     Some (Inr (skewedCodes, 1, 16))"
  by code_simp

lemma skewed_secondPass: "secondPass skewedCodes = (skewedCodes, Some (InvalidLength 16))"
  by code_simp

lemma skewed_Encoder_Init:
  "Encoder_Init 17 skewedFrequencies =
     Some (Inr \<lparr>e_codes = skewedCodes, e_minSize = 1, e_maxSize = 16\<rparr>)"
  by (rule Encoder_Init_firstPass [OF _ _ _ _ skewed_firstPass skewed_secondPass])
    (simp_all add: MaxSymbol_def skewed_nodes, simp add: skewedFrequencies_def)


text \<open>
  Claim C4. \<open>Encoder.Init\<close> on these frequencies completes and returns an Encoder:
  \<open>firstPass\<close> derives the lengths \<open>16, 16, 15, ..., 1\<close>, \<open>secondPass\<close> returns the
  invalid-length error for 16 before it assigns any bits, \<open>Init\<close> drops that error, and the
  Encoder keeps the sizes with all bits zero. \<open>InitFromSizes\<close> on the same lengths reports the
  error.
\<close>

theorem Init_drops_secondPass_error:
  "firstPass (replicate (nat 17) zeroCode) (collectNodes 0 skewedFrequencies) 0 0 =
     Some (Inr (skewedCodes, 1, 16))
   \<and> map Size skewedCodes = [16, 16, 15, 14, 13, 12, 11, 10, 9, 8, 7, 6, 5, 4, 3, 2, 1]
   \<and> list_all (\<lambda>hc. Bits hc = 0) skewedCodes
   \<and> secondPass skewedCodes = (skewedCodes, Some (InvalidLength 16))
   \<and> Encoder_Init 17 skewedFrequencies =
       Some (Inr \<lparr>e_codes = skewedCodes, e_minSize = 1, e_maxSize = 16\<rparr>)
   \<and> InitFromSizes [16, 16, 15, 14, 13, 12, 11, 10, 9, 8, 7, 6, 5, 4, 3, 2, 1] = Inl (InvalidLength 16)"
proof -
  have a: "map Size skewedCodes = [16, 16, 15, 14, 13, 12, 11, 10, 9, 8, 7, 6, 5, 4, 3, 2, 1]"
    by (simp add: skewedCodes_def MakeCode_def)
  have b: "list_all (\<lambda>hc. Bits hc = 0) skewedCodes"
    by (simp add: skewedCodes_def MakeCode_def)
  have c: "InitFromSizes [16, 16, 15, 14, 13, 12, 11, 10, 9, 8, 7, 6, 5, 4, 3, 2, 1] = Inl (InvalidLength 16)"
    by code_simp
  show ?thesis
    using a b c skewed_firstPass skewed_secondPass skewed_Encoder_Init by simp
qed


text \<open>
  A code \<open>p\<close> is a bit-prefix of a code \<open>c\<close>, in transmission order (the first bit is the
  least significant one), when \<open>p\<close> is no longer than \<open>c\<close> and its bits are the first bits
  of \<open>c\<close>.
\<close>

definition isPrefix :: "Code \<Rightarrow> Code \<Rightarrow> bool" where
  "isPrefix p c = (Size p \<le> Size c \<and> Bits p = take_bit (unat (Size p)) (Bits c))"

text \<open>
  Claim C8. Two construction paths give codes that are not prefix-free. \<open>Encoder.Init\<close> on
  \<open>skewedFrequencies\<close> gives the symbols 0 and 1 the same code (16 bits, all zero), and
  \<open>Decoder.Init\<close> on \<open>wrapSizes\<close> gives the symbols 0 and 2 the same one-bit code; a code
  is a bit-prefix of itself.
\<close>

theorem codes_not_prefix_free:
  "(\<exists>e. Encoder_Init 17 skewedFrequencies = Some (Inr e)
        \<and> Encode e 0 = Inr (MakeCode 16 0) \<and> Encode e 1 = Inr (MakeCode 16 0))
   \<and> (\<exists>d rest. Decoder_Init wrapSizes = Inr d
        \<and> Decoder_codes wrapSizes = (0, MakeCode 1 0) # (1, MakeCode 1 1) # (2, MakeCode 1 0) # rest)
   \<and> isPrefix (MakeCode 16 0) (MakeCode 16 0)
   \<and> isPrefix (MakeCode 1 0) (MakeCode 1 0)"
proof -
  have a: "Encode \<lparr>e_codes = skewedCodes, e_minSize = 1, e_maxSize = 16\<rparr> 0 = Inr (MakeCode 16 0)"
    "Encode \<lparr>e_codes = skewedCodes, e_minSize = 1, e_maxSize = 16\<rparr> 1 = Inr (MakeCode 16 0)"
    by (simp_all add: Encode_def skewedCodes_def)
  have b: "isPrefix (MakeCode 16 0) (MakeCode 16 0)" "isPrefix (MakeCode 1 0) (MakeCode 1 0)"
    by (simp_all add: isPrefix_def MakeCode_def)
  show ?thesis
    using a b by (simp add: skewed_Encoder_Init wrapSizes_accepted wrapSizes_codes)
qed

section \<open>Saturating addition of frequencies\<close>

text \<open>
  \<open>freqSum a b\<close>, read as a natural number, is the smaller of \<open>a + b\<close> and \<open>2^32 - 1\<close>.
\<close>

lemma freqSum_saturates: "unat (freqSum a b) = min (unat a + unat b) (2 ^ 32 - 1)"
proof -
  have ua: "unat a < 4294967296" and ub: "unat b < 4294967296"
    using unsigned_less [of a, where ?'a = nat] unsigned_less [of b, where ?'a = nat]
    by simp_all
  have s: "unat (a + b) = (unat a + unat b) mod 4294967296"
    by (simp add: unat_word_ariths)
  show ?thesis
  proof (cases "unat a + unat b < 4294967296")
    case True
    then have "unat (a + b) = unat a + unat b" using s by simp
    then show ?thesis using True
      by (simp add: freqSum_def Let_def word_less_nat_alt)
  next
    case False
    then have "unat (a + b) = unat a + unat b - 4294967296"
      using s ua ub by (simp add: mod_if)
    then have "a + b < a" using ub False
      by (simp add: word_less_nat_alt)
    then show ?thesis using False
      by (simp add: freqSum_def Let_def)
  qed
qed

text \<open>\<open>heap.Push\<close> puts the node on the heap: \<open>up\<close> only swaps entries.\<close>

lemma set_heap_up: "j < length h \<Longrightarrow> set (heap_up h j) = set h"
proof (induction h j rule: heap_up.induct)
  case (1 h j)
  show ?case
  proof (cases "(j - 1) div 2 = j \<or> \<not> freqHeap_Less h j ((j - 1) div 2)")
    case True
    then show ?thesis by (subst heap_up.simps) (simp add: Let_def)
  next
    case False
    have i: "(j - 1) div 2 < length h" using "1.prems" by simp
    have "set (heap_up (freqHeap_Swap h ((j - 1) div 2) j) ((j - 1) div 2)) =
            set (freqHeap_Swap h ((j - 1) div 2) j)"
      using "1.IH" [OF refl False] i by simp
    also have "\<dots> = set h"
      using i "1.prems" by (simp add: freqHeap_Swap_def)
    finally show ?thesis
      using False by (subst heap_up.simps) (simp add: Let_def)
  qed
qed

lemma set_heap_Push: "set (heap_Push h x) = insert x (set h)"
  by (simp add: heap_Push_def set_heap_up)

text \<open>
  Claim C9. One round of the loop of \<open>firstPass\<close>: when the heap \<open>h\<close> has more than one
  node and the two pops return the nodes \<open>a\<close> and \<open>b\<close>, leaving \<open>h2\<close>, the loop goes on
  with the heap \<open>heap.Push(h2, node)\<close>, where \<open>node\<close> is the next synthetic symbol with the
  frequency \<open>freqSum\<close> of the two popped frequencies. That node is on the new heap, and its
  frequency, read as a natural number, is the smaller of the exact sum of the two frequencies
  and \<open>2^32 - 1\<close>: it saturates at \<open>math.MaxUint32\<close> and never wraps.
\<close>

theorem combineNodes_pushes_saturating_sum:
  assumes "1 < length h" and "heap_Pop h = (a, h1)" and "heap_Pop h1 = (b, h2)"
  shows "combineNodes h syntheticSymbols nextSyntheticSymbol =
           combineNodes (heap_Push h2 (nextSyntheticSymbol, freqSum (snd a) (snd b)))
             (syntheticSymbols @ [(fst a, fst b)]) (nextSyntheticSymbol + 1)
       \<and> (nextSyntheticSymbol, freqSum (snd a) (snd b))
           \<in> set (heap_Push h2 (nextSyntheticSymbol, freqSum (snd a) (snd b)))
       \<and> unat (freqSum (snd a) (snd b)) = min (unat (snd a) + unat (snd b)) (2 ^ 32 - 1)"
proof -
  have "combineNodes h syntheticSymbols nextSyntheticSymbol =
           combineNodes (heap_Push h2 (nextSyntheticSymbol, freqSum (snd a) (snd b)))
             (syntheticSymbols @ [(fst a, fst b)]) (nextSyntheticSymbol + 1)"
    using assms by (subst combineNodes.simps) simp
  then show ?thesis
    by (simp add: set_heap_Push freqSum_saturates)
qed

text \<open>
  Frequencies on which the sum saturates twice: the nodes of the symbols 0 and 1 sum to
  \<open>6000000000\<close>, and the node of the symbol 4 with the synthetic node of the symbols 2 and 3
  to \<open>7500000000\<close>. Both synthetic nodes get the frequency \<open>2^32 - 1\<close>, and the sizes come
  out as \<open>[2, 2, 3, 3, 2]\<close>.
\<close>

lemma saturating_scenario:
  "combineNodes
      (heap_Init (collectNodes 0 [3000000000, 3000000000, 2000000000, 2000000000, 3500000000]))
      [] MinInt32 =
     ([(MinInt32 + 3, 4294967295)],
      [(2, 3), (0, 1), (4, MinInt32), (MinInt32 + 1, MinInt32 + 2)])
   \<and> Encoder_Init 5 [3000000000, 3000000000, 2000000000, 2000000000, 3500000000] =
       Some (Inr \<lparr>e_codes = [MakeCode 2 0, MakeCode 2 2, MakeCode 3 3, MakeCode 3 7, MakeCode 2 1],
                 e_minSize = 2, e_maxSize = 3\<rparr>)"
  by code_simp

theorem combineNodes_pushes_saturating_sum_witness:
  "1 < length [(0, 3000000000), (1, 3000000000 :: uint32)]
   \<and> heap_Pop [(0, 3000000000), (1, 3000000000)] = ((0, 3000000000), [(1, 3000000000)])
   \<and> heap_Pop [(1, 3000000000)] = ((1, 3000000000), [])
   \<and> combineNodes [(0, 3000000000), (1, 3000000000)] [] MinInt32 =
       combineNodes (heap_Push [] (MinInt32, freqSum 3000000000 3000000000)) [(0, 1)] (MinInt32 + 1)
   \<and> (MinInt32, freqSum 3000000000 3000000000)
       \<in> set (heap_Push [] (MinInt32, freqSum 3000000000 3000000000))
   \<and> unat (freqSum 3000000000 3000000000) = min (3000000000 + 3000000000) (2 ^ 32 - 1)
   \<and> freqSum 3000000000 3000000000 = 4294967295
   \<and> combineNodes [(0, 3000000000), (1, 3000000000)] [] MinInt32 =
       ([(MinInt32, 4294967295)], [(0, 1)])
   \<and> (\<exists>e. Encoder_Init 5 [3000000000, 3000000000, 2000000000, 2000000000, 3500000000] = Some (Inr e)
         \<and> Encoder_SizeBySymbol e = Inr [2, 2, 3, 3, 2])"
proof -
  have p1: "heap_Pop [(0, 3000000000), (1, 3000000000)] = ((0, 3000000000), [(1, 3000000000)])"
    by code_simp
  have p2: "heap_Pop [(1, 3000000000)] = ((1, 3000000000), [])"
    by code_simp
  have len: "1 < length [(0, 3000000000), (1, 3000000000 :: uint32)]"
    by simp
  have f: "freqSum 3000000000 3000000000 = 4294967295"
    by code_simp
  have c: "combineNodes [(0, 3000000000), (1, 3000000000)] [] MinInt32 =
             ([(MinInt32, 4294967295)], [(0, 1)])"
    by code_simp
  have s: "Encoder_SizeBySymbol
             \<lparr>e_codes = [MakeCode 2 0, MakeCode 2 2, MakeCode 3 3, MakeCode 3 7, MakeCode 2 1],
              e_minSize = 2, e_maxSize = 3\<rparr> = Inr [2, 2, 3, 3, 2]"
    by code_simp
  have e: "\<exists>e. Encoder_Init 5 [3000000000, 3000000000, 2000000000, 2000000000, 3500000000] = Some (Inr e)
         \<and> Encoder_SizeBySymbol e = Inr [2, 2, 3, 3, 2]"
    using saturating_scenario s by simp
  show ?thesis
    using combineNodes_pushes_saturating_sum [OF len p1 p2, of "[]" MinInt32] p1 p2 f c e
    by simp
qed

end
